theory Spec2Isabelle
  imports Complex_Main "HOL-Library.Sublist" "HOL-Library.Word"
begin

section \<open>Python values used by the script\<close>

text \<open>
  The script \<^verbatim>\<open>automated_cookie_eval.py\<close> drives a browser through Playwright and writes
  a log. Text that the script inspects (URLs, hrefs, log messages) is a \<^typ>\<open>string\<close>, read
  as a sequence of code points below 256. Header names and values are only measured, so
  they are kept as sequences of arbitrary code points and encoded to UTF-8 bytes.
\<close>

datatype exn =
    PlaywrightError string
  | KeyError string
  | UnicodeEncodeError
  | IndexError
  | ValueError

text \<open>\<^verbatim>\<open>str(e)\<close>, as it is interpolated into log messages.\<close>

fun exn_text :: "exn \<Rightarrow> string" where
  "exn_text (PlaywrightError m) = m"
| "exn_text (KeyError k) = [CHR 0x27] @ k @ [CHR 0x27]"
| "exn_text UnicodeEncodeError = ''surrogates not allowed''"
| "exn_text IndexError = ''list index out of range''"
| "exn_text ValueError = ''empty range for randrange()''"

subsection \<open>String operations\<close>

text \<open>\<^verbatim>\<open>s.startswith(p)\<close>\<close>

fun startswith :: "string \<Rightarrow> string \<Rightarrow> bool" where
  "startswith s [] = True"
| "startswith [] (p # ps) = False"
| "startswith (c # cs) (p # ps) = (c = p \<and> startswith cs ps)"

text \<open>\<^verbatim>\<open>sub in s\<close>: \<open>sub\<close> occurs in \<open>s\<close> as a contiguous block.\<close>

fun contains :: "string \<Rightarrow> string \<Rightarrow> bool" where
  "contains sub [] = (sub = [])"
| "contains sub (c # cs) = (startswith (c # cs) sub \<or> contains sub cs)"

text \<open>
  \<^verbatim>\<open>s.lower()\<close> on code points below 256: the letters A to Z and the Latin-1 capitals
  U+00C0 to U+00DE (the multiplication sign U+00D7 apart) move up by 32.
\<close>

definition lower_char :: "char \<Rightarrow> char" where
  "lower_char c =
     (let n = (of_char c :: nat) in
      if (65 \<le> n \<and> n \<le> 90) \<or> (192 \<le> n \<and> n \<le> 222 \<and> n \<noteq> 215)
      then char_of (n + 32) else c)"

definition lower :: "string \<Rightarrow> string" where
  "lower s = map lower_char s"

text \<open>\<^verbatim>\<open>s.lstrip('/')\<close> and \<^verbatim>\<open>s.rstrip('/')\<close> for a one-character argument.\<close>

definition lstrip :: "char \<Rightarrow> string \<Rightarrow> string" where
  "lstrip ch s = dropWhile (\<lambda>c. c = ch) s"

definition rstrip :: "char \<Rightarrow> string \<Rightarrow> string" where
  "rstrip ch s = rev (dropWhile (\<lambda>c. c = ch) (rev s))"

text \<open>\<^verbatim>\<open>s.split(sep, 1)[1]\<close> when \<open>sep\<close> occurs in \<open>s\<close>: what follows its first occurrence.\<close>

fun after_first :: "string \<Rightarrow> string \<Rightarrow> string" where
  "after_first sep [] = []"
| "after_first sep (c # cs) =
     (if startswith (c # cs) sep then drop (length sep) (c # cs) else after_first sep cs)"

text \<open>\<^verbatim>\<open>s.split("\n")[0]\<close>: the text before the first line feed.\<close>

definition first_line :: "string \<Rightarrow> string" where
  "first_line s = takeWhile (\<lambda>c. c \<noteq> CHR 0x0A) s"

text \<open>Decimal rendering of a length, as an f-string prints it.\<close>

definition digit_char :: "nat \<Rightarrow> char" where
  "digit_char d = ''0123456789'' ! d"

fun str_nat :: "nat \<Rightarrow> string" where
  "str_nat n = (if n < 10 then [digit_char n] else str_nat (n div 10) @ [digit_char (n mod 10)])"

subsection \<open>UTF-8\<close>

type_synonym pystr = "nat list"

type_synonym byte = "8 word"

text \<open>
  \<^verbatim>\<open>s.encode('utf-8')\<close>. A lone surrogate has no UTF-8 form and makes \<^verbatim>\<open>encode\<close> raise;
  code points above U+10FFFF do not occur in a Python string and are rejected here too.
\<close>

definition encode_cp :: "nat \<Rightarrow> exn + byte list" where
  "encode_cp cp =
     (if cp < 0x80 then Inr [of_nat cp]
      else if cp < 0x800 then Inr [of_nat (0xC0 + cp div 64), of_nat (0x80 + cp mod 64)]
      else if 0xD800 \<le> cp \<and> cp \<le> 0xDFFF then Inl UnicodeEncodeError
      else if cp < 0x10000 then
        Inr [of_nat (0xE0 + cp div 4096), of_nat (0x80 + cp div 64 mod 64),
             of_nat (0x80 + cp mod 64)]
      else if cp < 0x110000 then
        Inr [of_nat (0xF0 + cp div 262144), of_nat (0x80 + cp div 4096 mod 64),
             of_nat (0x80 + cp div 64 mod 64), of_nat (0x80 + cp mod 64)]
      else Inl UnicodeEncodeError)"

fun utf8_encode :: "pystr \<Rightarrow> exn + byte list" where
  "utf8_encode [] = Inr []"
| "utf8_encode (cp # cps) =
     (case encode_cp cp of
        Inl e \<Rightarrow> Inl e
      | Inr bs \<Rightarrow> (case utf8_encode cps of Inl e \<Rightarrow> Inl e | Inr rest \<Rightarrow> Inr (bs @ rest)))"

text \<open>The number of bytes a code point takes in UTF-8, and whether it can be encoded.\<close>

definition cp_width :: "nat \<Rightarrow> nat" where
  "cp_width cp = (if cp < 0x80 then 1 else if cp < 0x800 then 2 else if cp < 0x10000 then 3 else 4)"

definition utf8_len :: "pystr \<Rightarrow> nat" where
  "utf8_len s = sum_list (map cp_width s)"

definition encodable :: "pystr \<Rightarrow> bool" where
  "encodable s = list_all (\<lambda>cp. cp < 0x110000 \<and> \<not> (0xD800 \<le> cp \<and> cp \<le> 0xDFFF)) s"

section \<open>Header size\<close>

text \<open>
  \<^verbatim>\<open>calculate_header_size(headers)\<close>. A header set is a dictionary from names to values,
  kept in insertion order; \<open>None\<close> and the empty dictionary are the falsy arguments.
\<close>

type_synonym headers = "(pystr \<times> pystr) list"

fun header_loop :: "headers \<Rightarrow> nat \<Rightarrow> exn + nat" where
  "header_loop [] total_size = Inr total_size"
| "header_loop ((key, val) # rest) total_size =
     (case utf8_encode key of
        Inl e \<Rightarrow> Inl e
      | Inr kb \<Rightarrow>
          (case utf8_encode val of
             Inl e \<Rightarrow> Inl e
           | Inr vb \<Rightarrow> header_loop rest (total_size + (length kb + length vb + 2) + 2)))"

definition calculate_header_size :: "headers option \<Rightarrow> exn + nat" where
  "calculate_header_size hdrs =
     (case hdrs of
        None \<Rightarrow> Inr 0
      | Some [] \<Rightarrow> Inr 0
      | Some (h # hs) \<Rightarrow>
          (case header_loop (h # hs) 0 of
             Inl e \<Rightarrow> Inl e
           | Inr total_size \<Rightarrow> Inr (total_size + 2)))"

section \<open>The browser session as state\<close>

text \<open>
  A cookie is the dictionary Playwright hands out; every key is optional. The script reads
  the keys \<^verbatim>\<open>name\<close> and \<^verbatim>\<open>expires\<close> and copies the others.
\<close>

record cookie =
  name :: "string option"
  cvalue :: "string option"
  domain :: "string option"
  path :: "string option"
  expires :: "real option"
  httpOnly :: "bool option"
  secure :: "bool option"
  sameSite :: "string option"

text \<open>
  What the script can see of a page: its URL, for each CSS selector the elements that
  match it (in document order), and the headers of the request that loads it.
\<close>

record element =
  visible :: bool
  href :: "string option"
  text_content :: "string option"

record page =
  url :: string
  elements :: "string \<Rightarrow> element list"
  request_headers :: headers

text \<open>An element handle: the selector it was found with and its position among the matches.\<close>

datatype handle = Handle string nat

text \<open>The calls the script issues to the browser and to the event loop, with their arguments.\<close>

datatype call =
    Goto string
  | Reload "nat option"
  | WaitForLoadState string "nat option"
  | WaitForFunction nat
  | ContextCookies
  | ClearCookies
  | AddCookies "cookie list"
  | QuerySelectorAll string
  | QuerySelector string
  | IsVisible handle
  | GetAttribute handle string
  | TextContent handle
  | Click handle
  | Fill handle string
  | Sleep nat

text \<open>
  The session. \<open>faults\<close> and \<open>upcoming\<close> are the environment's side: \<open>faults\<close> says for each
  coming browser call whether it raises (and with which message), \<open>upcoming\<close> lists the
  pages that the coming navigations load, \<open>seeds\<close> feeds \<^verbatim>\<open>random\<close>. \<open>calls\<close> records every
  call issued, in order. Only \<^verbatim>\<open>asyncio.sleep\<close> advances the clock \<open>now\<close>. The callbacks
  registered with \<^verbatim>\<open>context.on\<close>, \<^verbatim>\<open>page.on\<close> and \<^verbatim>\<open>page.once\<close> run between the steps of
  the main flow; of these only the capture of the request headers is part of the model.
\<close>

record world =
  jar :: "cookie list"
  current :: page
  page_closed :: bool
  upcoming :: "page list"
  faults :: "string option list"
  seeds :: "nat list"
  now :: real
  strftime :: "real \<Rightarrow> string"
  json_dumps :: "cookie list \<Rightarrow> string"
  log_file :: "string list"
  console :: "string list"
  calls :: "call list"

text \<open>
  A step of the script: it ends with a value or with an exception, and leaves a session
  behind in both cases, so that a handler runs in the session the failure left.
\<close>

type_synonym 'a io = "world \<Rightarrow> (exn + 'a) \<times> world"

definition ret :: "'a \<Rightarrow> 'a io" where
  "ret a = (\<lambda>s. (Inr a, s))"

definition raise :: "exn \<Rightarrow> 'a io" where
  "raise e = (\<lambda>s. (Inl e, s))"

definition seq :: "'a io \<Rightarrow> ('a \<Rightarrow> 'b io) \<Rightarrow> 'b io" where
  "seq m f = (\<lambda>s. case m s of (Inl e, s') \<Rightarrow> (Inl e, s') | (Inr a, s') \<Rightarrow> f a s')"

definition try_except :: "'a io \<Rightarrow> (exn \<Rightarrow> 'a io) \<Rightarrow> 'a io" where
  "try_except m h = (\<lambda>s. case m s of (Inl e, s') \<Rightarrow> h e s' | (Inr a, s') \<Rightarrow> (Inr a, s'))"

definition gets :: "(world \<Rightarrow> 'a) \<Rightarrow> 'a io" where
  "gets f = (\<lambda>s. (Inr (f s), s))"

definition modify :: "(world \<Rightarrow> world) \<Rightarrow> unit io" where
  "modify f = (\<lambda>s. (Inr (), f s))"

subsection \<open>Calls into the browser\<close>

text \<open>Every browser call is recorded and then succeeds or raises as the environment says.\<close>

definition browser_call :: "call \<Rightarrow> unit io" where
  "browser_call c =
     (\<lambda>s. case faults s of
         [] \<Rightarrow> (Inr (), s\<lparr>calls := calls s @ [c]\<rparr>)
       | None # fs \<Rightarrow> (Inr (), s\<lparr>calls := calls s @ [c], faults := fs\<rparr>)
       | Some msg # fs \<Rightarrow> (Inl (PlaywrightError msg), s\<lparr>calls := calls s @ [c], faults := fs\<rparr>))"

text \<open>A navigation that succeeds loads the next page the environment has in store.\<close>

definition load_next :: "world \<Rightarrow> world" where
  "load_next s = (case upcoming s of [] \<Rightarrow> s | p # ps \<Rightarrow> s\<lparr>current := p, upcoming := ps\<rparr>)"

definition arrive :: "string \<Rightarrow> world \<Rightarrow> world" where
  "arrive u s =
     (case upcoming s of
        [] \<Rightarrow> s\<lparr>current := (current s)\<lparr>url := u\<rparr>\<rparr>
      | p # ps \<Rightarrow> s\<lparr>current := p, upcoming := ps\<rparr>)"

definition page_goto :: "string \<Rightarrow> unit io" where
  "page_goto u = seq (browser_call (Goto u)) (\<lambda>_. modify (arrive u))"

definition page_reload :: "nat option \<Rightarrow> unit io" where
  "page_reload timeout = seq (browser_call (Reload timeout)) (\<lambda>_. modify load_next)"

definition wait_for_load_state :: "string \<Rightarrow> nat option \<Rightarrow> unit io" where
  "wait_for_load_state st timeout = browser_call (WaitForLoadState st timeout)"

definition wait_for_function :: "nat \<Rightarrow> unit io" where
  "wait_for_function timeout = browser_call (WaitForFunction timeout)"

definition page_url :: "string io" where
  "page_url = gets (\<lambda>s. url (current s))"

definition is_closed :: "bool io" where
  "is_closed = gets page_closed"

definition context_cookies :: "cookie list io" where
  "context_cookies = seq (browser_call ContextCookies) (\<lambda>_. gets jar)"

definition clear_cookies :: "unit io" where
  "clear_cookies = seq (browser_call ClearCookies) (\<lambda>_. modify (\<lambda>s. s\<lparr>jar := []\<rparr>))"

definition add_cookies :: "cookie list \<Rightarrow> unit io" where
  "add_cookies cs = seq (browser_call (AddCookies cs)) (\<lambda>_. modify (\<lambda>s. s\<lparr>jar := jar s @ cs\<rparr>))"

definition query_selector_all :: "string \<Rightarrow> handle list io" where
  "query_selector_all sel =
     seq (browser_call (QuerySelectorAll sel))
       (\<lambda>_. gets (\<lambda>s. map (Handle sel) [0 ..< length (elements (current s) sel)]))"

definition query_selector :: "string \<Rightarrow> handle option io" where
  "query_selector sel =
     seq (browser_call (QuerySelector sel))
       (\<lambda>_. gets (\<lambda>s. if elements (current s) sel = [] then None else Some (Handle sel 0)))"

text \<open>A handle whose element is no longer on the page makes the call raise.\<close>

definition resolve :: "handle \<Rightarrow> element io" where
  "resolve h =
     (case h of Handle sel i \<Rightarrow>
        (\<lambda>s. if i < length (elements (current s) sel) then (Inr (elements (current s) sel ! i), s)
             else (Inl (PlaywrightError ''Element is not attached to the DOM''), s)))"

definition is_visible :: "handle \<Rightarrow> bool io" where
  "is_visible h = seq (browser_call (IsVisible h)) (\<lambda>_. seq (resolve h) (\<lambda>el. ret (visible el)))"

definition get_attribute :: "handle \<Rightarrow> string \<Rightarrow> string option io" where
  "get_attribute h attr =
     seq (browser_call (GetAttribute h attr))
       (\<lambda>_. seq (resolve h) (\<lambda>el. ret (if attr = ''href'' then href el else None)))"

definition get_text_content :: "handle \<Rightarrow> string option io" where
  "get_text_content h = seq (browser_call (TextContent h)) (\<lambda>_. seq (resolve h) (\<lambda>el. ret (text_content el)))"

definition click :: "handle \<Rightarrow> unit io" where
  "click h = seq (browser_call (Click h)) (\<lambda>_. modify load_next)"

definition fill :: "handle \<Rightarrow> string \<Rightarrow> unit io" where
  "fill h txt = browser_call (Fill h txt)"

subsection \<open>The event loop, the clock and the random source\<close>

definition sleep :: "nat \<Rightarrow> unit io" where
  "sleep d = modify (\<lambda>s. s\<lparr>calls := calls s @ [Sleep d], now := now s + real d\<rparr>)"

definition time_time :: "real io" where
  "time_time = gets now"

definition print :: "string \<Rightarrow> unit io" where
  "print line = modify (\<lambda>s. s\<lparr>console := console s @ [line]\<rparr>)"

text \<open>
  \<^verbatim>\<open>random.randint(a, b)\<close>: some integer between \<open>a\<close> and \<open>b\<close>, both included, picked by
  the next seed; an empty range raises.
\<close>

definition randint :: "int \<Rightarrow> int \<Rightarrow> int io" where
  "randint a b =
     (\<lambda>s. if b < a then (Inl ValueError, s)
          else (case seeds s of
                  [] \<Rightarrow> (Inr a, s)
                | r # rs \<Rightarrow> (Inr (a + int (r mod nat (b - a + 1))), s\<lparr>seeds := rs\<rparr>)))"

text \<open>\<^verbatim>\<open>xs[i]\<close> on a list: a negative index counts from the end, and out of range raises.\<close>

definition py_index :: "'a list \<Rightarrow> int \<Rightarrow> 'a io" where
  "py_index xs i =
     (if 0 \<le> i \<and> i < int (length xs) then ret (xs ! nat i)
      else if i < 0 \<and> - int (length xs) \<le> i then ret (xs ! nat (int (length xs) + i))
      else raise IndexError)"

text \<open>\<^verbatim>\<open>str(x)\<close> for a text that may be \<^verbatim>\<open>None\<close>.\<close>

definition py_str :: "string option \<Rightarrow> string" where
  "py_str x = (case x of None \<Rightarrow> ''None'' | Some t \<Rightarrow> t)"

section \<open>Logging\<close>

definition url_indicators :: "string list" where
  "url_indicators =
     [''Navigating to '', ''Returning to starting page: '', ''Current URL: '',
      ''Clicking link: '', ''Starting automated browsing at '']"

text \<open>
  The console line of a URL message: the first indicator of the list that occurs in the
  message, followed by what comes after its first occurrence, up to the end of that line.
\<close>

fun url_line :: "string list \<Rightarrow> string \<Rightarrow> string \<Rightarrow> string option" where
  "url_line [] timestamp message = None"
| "url_line (indicator # rest) timestamp message =
     (if contains indicator message
      then Some (''['' @ timestamp @ ''] '' @ indicator @ first_line (after_first indicator message))
      else url_line rest timestamp message)"

text \<open>\<^verbatim>\<open>log_message(log_file, message)\<close>; the log file is the list of the entries written.\<close>

definition log_entry :: "string \<Rightarrow> string \<Rightarrow> string" where
  "log_entry timestamp message = ''['' @ timestamp @ ''] '' @ message"

definition log_message :: "string \<Rightarrow> unit io" where
  "log_message message =
     seq (gets (\<lambda>s. strftime s (now s))) (\<lambda>timestamp.
     seq (modify (\<lambda>s. s\<lparr>log_file := log_file s @ [log_entry timestamp message]\<rparr>)) (\<lambda>_.
     if list_ex (\<lambda>indicator. contains indicator message) url_indicators then
       (case url_line url_indicators timestamp message of
          Some line \<Rightarrow> print line
        | None \<Rightarrow> ret ())
     else if contains ''==== BROWSING SESSION COMPLETE ===='' message \<or> contains ''Starting '' message
       then print (log_entry timestamp message)
     else ret ()))"

section \<open>Cookie modification\<close>

text \<open>
  The loop of \<^verbatim>\<open>modify_auth_cookies\<close> over the snapshot: a cookie with the key
  \<^verbatim>\<open>expires\<close> gives a copy with \<^verbatim>\<open>expires\<close> set to 0, and a log line that reads its name.
\<close>

fun collect_modified :: "cookie list \<Rightarrow> cookie list \<Rightarrow> cookie list io" where
  "collect_modified [] modified_cookies = ret modified_cookies"
| "collect_modified (cookie # rest) modified_cookies =
     (if expires cookie \<noteq> None then
        (case name cookie of
           None \<Rightarrow> raise (KeyError ''name'')
         | Some n \<Rightarrow>
             seq (log_message (''Reset 'xxpires' for cookie: '' @ n)) (\<lambda>_.
             collect_modified rest (modified_cookies @ [cookie\<lparr>expires := Some 0\<rparr>])))
      else collect_modified rest modified_cookies)"

text \<open>\<^verbatim>\<open>[cookie['name'] for cookie in cookies]\<close>\<close>

fun cookie_names :: "cookie list \<Rightarrow> exn + string list" where
  "cookie_names [] = Inr []"
| "cookie_names (cookie # rest) =
     (case name cookie of
        None \<Rightarrow> Inl (KeyError ''name'')
      | Some n \<Rightarrow> (case cookie_names rest of Inl e \<Rightarrow> Inl e | Inr ns \<Rightarrow> Inr (n # ns)))"

text \<open>\<^verbatim>\<open>[cookie for cookie in all_cookies if cookie['name'] not in cookie_names_to_modify]\<close>\<close>

fun cookies_to_keep :: "cookie list \<Rightarrow> string list \<Rightarrow> exn + cookie list" where
  "cookies_to_keep [] cookie_names_to_modify = Inr []"
| "cookies_to_keep (cookie # rest) cookie_names_to_modify =
     (case name cookie of
        None \<Rightarrow> Inl (KeyError ''name'')
      | Some n \<Rightarrow>
          (case cookies_to_keep rest cookie_names_to_modify of
             Inl e \<Rightarrow> Inl e
           | Inr kept \<Rightarrow> Inr (if n \<notin> set cookie_names_to_modify then cookie # kept else kept)))"

definition lift :: "exn + 'a \<Rightarrow> 'a io" where
  "lift r = (case r of Inl e \<Rightarrow> raise e | Inr a \<Rightarrow> ret a)"

definition modify_auth_cookies :: "unit io" where
  "modify_auth_cookies =
     seq context_cookies (\<lambda>all_cookies.
     seq (log_message (CHR 0x0A # ''==== MODIFYING AUTH COOKIES ====''))  (\<lambda>_.
     seq (collect_modified all_cookies []) (\<lambda>modified_cookies.
     if modified_cookies \<noteq> [] then
       try_except
         (seq clear_cookies (\<lambda>_.
          seq (lift (cookie_names modified_cookies)) (\<lambda>cookie_names_to_modify.
          seq (lift (cookies_to_keep all_cookies cookie_names_to_modify)) (\<lambda>original_cookies_to_keep.
          seq (if original_cookies_to_keep \<noteq> [] then add_cookies original_cookies_to_keep
               else ret ()) (\<lambda>_.
          seq (add_cookies modified_cookies) (\<lambda>_.
          seq (log_message (''Successfully modified '' @ str_nat (length modified_cookies)
                 @ '' auth cookies'')) (\<lambda>_.
          try_except
            (seq (log_message ''Reloading page to apply cookie changes'') (\<lambda>_.
             page_reload (Some 30000)))
            (\<lambda>reload_error.
               log_message (''Error during reload after cookie modification: ''
                 @ exn_text reload_error)))))))))
         (\<lambda>e. log_message (''Error modifying auth cookies: '' @ exn_text e))
     else log_message ''No auth cookies found to modify'')))"

section \<open>Login\<close>

record config =
  start_url :: string
  browse_duration :: int
  refresh_interval :: int
  return_interval :: int
  cookie_mod_interval :: int
  COGNITO_USERNAME :: string
  COGNITO_PASSWORD :: string

definition username_selectors :: "string list" where
  \<open>username_selectors = [''#signInFormUsername'', ''input[name="username"]'']\<close>

definition password_selectors :: "string list" where
  \<open>password_selectors = [''#signInFormPassword'', ''input[type="password"]'']\<close>

definition submit_selectors :: "string list" where
  \<open>submit_selectors = [''input[name="signInSubmitButton"]'', ''input[type="submit"]'']\<close>

text \<open>\<^verbatim>\<open>find_visible_element(selectors)\<close>: the inner loop over the matches of one selector,
  then the loop over the selectors.\<close>

fun first_visible :: "handle list \<Rightarrow> handle option io" where
  "first_visible [] = ret None"
| "first_visible (el # els) =
     seq (is_visible el) (\<lambda>v. if v then ret (Some el) else first_visible els)"

fun find_visible_element :: "string list \<Rightarrow> handle option io" where
  "find_visible_element [] = ret None"
| "find_visible_element (selector # selectors) =
     seq (query_selector_all selector) (\<lambda>els.
     seq (first_visible els) (\<lambda>found.
     case found of
       Some el \<Rightarrow> ret (Some el)
     | None \<Rightarrow> find_visible_element selectors))"

text \<open>After the click on the submit button (the innermost \<^verbatim>\<open>try\<close> of the login).\<close>

definition after_submit :: "string \<Rightarrow> unit io" where
  "after_submit pre_submit_url =
     try_except
       (seq (log_message ''Waiting for navigation after submit...'') (\<lambda>_.
        seq (try_except
               (seq (wait_for_function 10000) (\<lambda>_.
                seq page_url (\<lambda>u.
                if u \<noteq> pre_submit_url then log_message (''URL changed to: '' @ u)
                else log_message ''URL did not change, but continuing...'')))
               (\<lambda>url_wait_error.
                  log_message (''Error waiting for URL change: '' @ exn_text url_wait_error))) (\<lambda>_.
        seq (try_except
               (seq (wait_for_load_state ''domcontentloaded'' (Some 15000)) (\<lambda>_.
                log_message ''Page content loaded''))
               (\<lambda>load_error.
                  log_message (''Load state timeout, but continuing: '' @ exn_text load_error))) (\<lambda>_.
        seq page_url (\<lambda>u.
        log_message (''Login process completed, current URL: '' @ u))))))
       (\<lambda>nav_error.
          seq (log_message (''Navigation error: '' @ exn_text nav_error)) (\<lambda>_.
          seq page_url (\<lambda>current_url.
          seq (log_message (''Current URL after submit attempt: '' @ current_url)) (\<lambda>_.
          if contains ''login'' (lower current_url) \<or> contains ''signin'' (lower current_url) then
            seq (log_message ''Still on login page, checking for error messages'') (\<lambda>_.
            seq (query_selector ''.error-message, .alert-error'') (\<lambda>error_element.
            seq (case error_element of
                   None \<Rightarrow> ret ()
                 | Some el \<Rightarrow>
                     seq (get_text_content el) (\<lambda>error_text.
                     seq (log_message (''Login error message found: '' @ py_str error_text)) (\<lambda>_.
                     print (''Login error: '' @ py_str error_text)))) (\<lambda>_.
            seq (print ''Login failed. Please login manually within 60 seconds.'') (\<lambda>_.
            sleep 60))))
          else log_message ''Page URL changed but navigation event not detected''))))"

text \<open>The three steps of the form, each with the rest of the login as its continuation.\<close>

definition submit_step :: "unit io" where
  "submit_step =
     seq (find_visible_element submit_selectors) (\<lambda>submit_button.
     case submit_button of
       Some button \<Rightarrow>
         seq (log_message ''Found submit button with name: signInSubmitButton'') (\<lambda>_.
         seq page_url (\<lambda>pre_submit_url.
         seq (log_message ''Clicking submit button'') (\<lambda>_.
         seq (click button) (\<lambda>_.
         after_submit pre_submit_url))))
     | None \<Rightarrow>
         seq (log_message ''Could not find submit button with name: signInSubmitButton'') (\<lambda>_.
         seq (print ''Could not find submit button. Please login manually within 60 seconds.'') (\<lambda>_.
         sleep 60)))"

definition password_step :: "config \<Rightarrow> unit io" where
  "password_step cfg =
     seq (find_visible_element password_selectors) (\<lambda>password_field.
     case password_field of
       Some field \<Rightarrow>
         seq (log_message ''Found visible password field'') (\<lambda>_.
         seq (click field) (\<lambda>_.
         seq (fill field '''') (\<lambda>_.
         seq (fill field (COGNITO_PASSWORD cfg)) (\<lambda>_.
         seq (log_message ''Filled password field'') (\<lambda>_.
         seq (sleep 1) (\<lambda>_.
         submit_step))))))
     | None \<Rightarrow>
         seq (log_message ''Could not find visible password field'') (\<lambda>_.
         seq (print ''Could not find password field. Please login manually within 60 seconds.'') (\<lambda>_.
         sleep 60)))"

definition username_step :: "config \<Rightarrow> unit io" where
  "username_step cfg =
     seq (log_message ''Looking for NASA Cognito-specific login elements...'') (\<lambda>_.
     seq (sleep 1) (\<lambda>_.
     seq (log_message ''Checking for visible form elements (page has duplicate IDs)'') (\<lambda>_.
     seq (find_visible_element username_selectors) (\<lambda>username_field.
     case username_field of
       Some field \<Rightarrow>
         seq (log_message ''Found visible username field'') (\<lambda>_.
         seq (click field) (\<lambda>_.
         seq (fill field '''') (\<lambda>_.
         seq (fill field (COGNITO_USERNAME cfg)) (\<lambda>_.
         seq (log_message ''Filled username field'') (\<lambda>_.
         seq (sleep 1) (\<lambda>_.
         password_step cfg))))))
     | None \<Rightarrow>
         seq (log_message ''Could not find visible username field'') (\<lambda>_.
         seq (print ''Could not find username field. Please login manually within 60 seconds.'') (\<lambda>_.
         sleep 60))))))"

definition handle_cognito_login :: "config \<Rightarrow> unit io" where
  "handle_cognito_login cfg =
     try_except
       (seq (wait_for_load_state ''domcontentloaded'' (Some 30000)) (\<lambda>_.
        seq page_url (\<lambda>u.
        seq (log_message (''Login page loaded, URL: '' @ u)) (\<lambda>_.
        if COGNITO_USERNAME cfg \<noteq> [] \<and> COGNITO_PASSWORD cfg \<noteq> [] then
          seq (log_message ''Attempting automatic login with stored credentials'') (\<lambda>_.
          seq is_closed (\<lambda>closed.
          if closed then
            seq (log_message ''Page is closed during login attempt, cannot proceed'') (\<lambda>_.
            seq (print ''Login page closed. Please login manually within 60 seconds.'') (\<lambda>_.
            sleep 60))
          else
            try_except (username_step cfg)
              (\<lambda>e.
                 seq (log_message (''Error during login process: '' @ exn_text e)) (\<lambda>_.
                 seq (print ''Login error. Please login manually within 60 seconds.'') (\<lambda>_.
                 sleep 60)))))
        else
          seq (log_message ''No credentials available. Waiting for manual login.'') (\<lambda>_.
          seq (print ''Please login manually (no credentials found). Waiting 60 seconds.'') (\<lambda>_.
          sleep 60))))))
       (\<lambda>outer_e.
          seq (log_message (''Outer login error: '' @ exn_text outer_e)) (\<lambda>_.
          seq (print ''Login process error. Please login manually within 60 seconds.'') (\<lambda>_.
          sleep 60)))"

definition check_and_handle_cognito_login :: "config \<Rightarrow> bool io" where
  "check_and_handle_cognito_login cfg =
     seq page_url (\<lambda>current_url.
     if contains ''awscognito'' current_url \<or> contains ''amazoncognito'' current_url then
       seq (log_message (''AWS Cognito login page detected in URL: '' @ current_url)) (\<lambda>_.
       seq (handle_cognito_login cfg) (\<lambda>_.
       ret True))
     else ret False)"

section \<open>The browsing loop\<close>

text \<open>The three timestamps that the loop compares with the configured intervals.\<close>

record sched =
  last_refresh_time :: real
  last_return_time :: real
  last_cookie_mod_time :: real

subsection \<open>The click on a random link\<close>

definition bad_link_words :: "string list" where
  "bad_link_words = [''install'', ''uninstall'', ''forgot'', ''google'']"

text \<open>\<^verbatim>\<open>href and not any(bad_word in href.lower() for bad_word in bad_link_words)\<close>\<close>

definition link_kept :: "string option \<Rightarrow> bool" where
  "link_kept h =
     (case h of
        None \<Rightarrow> False
      | Some t \<Rightarrow> t \<noteq> [] \<and> \<not> list_ex (\<lambda>bad_word. contains bad_word (lower t)) bad_link_words)"

fun filter_links :: "handle list \<Rightarrow> (handle \<times> string) list \<Rightarrow> (handle \<times> string) list io" where
  "filter_links [] filtered_links = ret filtered_links"
| "filter_links (link # links) filtered_links =
     seq (get_attribute link ''href'') (\<lambda>h.
     if link_kept h then filter_links links (filtered_links @ [(link, the h)])
     else filter_links links filtered_links)"

text \<open>The upper bound handed to \<^verbatim>\<open>random.randint\<close>: \<^verbatim>\<open>min(9, len(filtered_links)-1)\<close>.\<close>

definition choice_bound :: "'a list \<Rightarrow> int" where
  "choice_bound filtered_links = min 9 (int (length filtered_links) - 1)"

text \<open>The address that the fallback navigates to when the click has failed.\<close>

definition full_url :: "string \<Rightarrow> string \<Rightarrow> string" where
  "full_url u h =
     (if startswith h ''http'' then h
      else rstrip (CHR ''/'') u @ ''/'' @ lstrip (CHR ''/'') h)"

definition click_link :: "config \<Rightarrow> handle \<Rightarrow> string \<Rightarrow> unit io" where
  "click_link cfg random_link h =
     (if h \<noteq> [] \<and> \<not> startswith h ''#'' \<and> \<not> startswith h ''javascript:'' then
        try_except
          (seq (log_message (CHR 0x0A # ''Clicking link: '' @ h)) (\<lambda>_.
           seq (click random_link) (\<lambda>_.
           wait_for_load_state ''networkidle'' None)))
          (\<lambda>e.
             seq (log_message (''Error clicking link: '' @ exn_text e)) (\<lambda>_.
             try_except (page_goto (full_url (start_url cfg) h))
               (\<lambda>inner_e. log_message (''Error navigating to link: '' @ exn_text inner_e))))
      else ret ())"

definition click_random_link :: "config \<Rightarrow> unit io" where
  "click_random_link cfg =
     seq (query_selector_all ''a'') (\<lambda>links.
     if links \<noteq> [] then
       seq (filter_links links []) (\<lambda>filtered_links.
       if filtered_links \<noteq> [] then
         seq (randint 0 (choice_bound filtered_links)) (\<lambda>random_choice.
         seq (py_index filtered_links random_choice) (\<lambda>(random_link, h).
         click_link cfg random_link h))
       else
         log_message ''No suitable links found after filtering out install/uninstall links'')
     else ret ())"

subsection \<open>One action per tick\<close>

datatype action = ModifyCookies | ReturnToStart | Refresh | ClickLink

text \<open>The branch that the \<^verbatim>\<open>if\<close>/\<^verbatim>\<open>elif\<close> chain of the loop takes.\<close>

definition choose_action :: "config \<Rightarrow> real \<Rightarrow> sched \<Rightarrow> action" where
  "choose_action cfg current_time sc =
     (if current_time - last_cookie_mod_time sc \<ge> real_of_int (cookie_mod_interval cfg)
        then ModifyCookies
      else if current_time - last_return_time sc \<ge> real_of_int (return_interval cfg)
        then ReturnToStart
      else if current_time - last_refresh_time sc \<ge> real_of_int (refresh_interval cfg)
        then Refresh
      else ClickLink)"

definition perform_action :: "config \<Rightarrow> real \<Rightarrow> sched \<Rightarrow> sched io" where
  "perform_action cfg current_time sc =
     (case choose_action cfg current_time sc of
        ModifyCookies \<Rightarrow>
          seq (log_message (CHR 0x0A # ''Time to modify auth cookies'')) (\<lambda>_.
          seq (try_except modify_auth_cookies
                 (\<lambda>e. log_message (''Error modifying auth cookies: '' @ exn_text e))) (\<lambda>_.
          ret (sc\<lparr>last_cookie_mod_time := current_time\<rparr>)))
      | ReturnToStart \<Rightarrow>
          seq (log_message (CHR 0x0A # ''Returning to starting page: '' @ start_url cfg)) (\<lambda>_.
          seq (try_except (page_goto (start_url cfg))
                 (\<lambda>e. log_message (''Error returning to starting page: '' @ exn_text e))) (\<lambda>_.
          ret (sc\<lparr>last_return_time := current_time\<rparr>)))
      | Refresh \<Rightarrow>
          seq (log_message (CHR 0x0A # ''Refreshing current page...'')) (\<lambda>_.
          seq (try_except (page_reload None)
                 (\<lambda>e. log_message (''Error refreshing page: '' @ exn_text e))) (\<lambda>_.
          ret (sc\<lparr>last_refresh_time := current_time\<rparr>)))
      | ClickLink \<Rightarrow> seq (click_random_link cfg) (\<lambda>_. ret sc))"

subsection \<open>The request headers of the tick\<close>

text \<open>
  The reload that makes the page send a request. The callback registered just before it
  stores the headers of that request; no request, no headers.
\<close>

definition capture_request_headers :: "headers option io" where
  "capture_request_headers =
     try_except
       (seq (try_except (wait_for_load_state ''domcontentloaded'' (Some 10000))
               (\<lambda>load_error.
                  log_message (''Load state timeout before reload, continuing anyway: ''
                    @ exn_text load_error))) (\<lambda>_.
        seq (page_reload (Some 30000)) (\<lambda>_.
        seq (gets (\<lambda>s. Some (request_headers (current s)))) (\<lambda>captured.
        seq (try_except (wait_for_load_state ''networkidle'' (Some 5000))
               (\<lambda>nw_error.
                  log_message (''Network idle timeout after reload, continuing anyway: ''
                    @ exn_text nw_error))) (\<lambda>_.
        ret captured)))))
       (\<lambda>reload_error.
          seq (log_message (''Error during page reload: '' @ exn_text reload_error)) (\<lambda>_.
          ret None))"

definition log_header_size :: "headers option \<Rightarrow> unit io" where
  "log_header_size hdrs =
     (if hdrs \<noteq> None \<and> hdrs \<noteq> Some [] then
        seq (lift (calculate_header_size hdrs)) (\<lambda>header_size.
        log_message (''Total request header size: '' @ str_nat header_size @ '' bytes''))
      else ret ())"

definition log_new_cookies :: "cookie list \<Rightarrow> cookie list \<Rightarrow> unit io" where
  "log_new_cookies current_cookies initial_cookies =
     (let new_cookies = filter (\<lambda>c. c \<notin> set initial_cookies) current_cookies in
      if new_cookies \<noteq> [] then
        seq (log_message (''New cookies since start: '' @ str_nat (length new_cookies))) (\<lambda>_.
        seq (gets (\<lambda>s. json_dumps s new_cookies)) (\<lambda>new_cookie_details.
        log_message (''New cookie details:'' @ [CHR 0x0A] @ new_cookie_details)))
      else ret ())"

subsection \<open>The loop\<close>

text \<open>One pass through the body of the \<^verbatim>\<open>while\<close> loop; it returns the timestamps for the next.\<close>

definition loop_body :: "config \<Rightarrow> cookie list \<Rightarrow> sched \<Rightarrow> sched io" where
  "loop_body cfg initial_cookies sc =
     seq time_time (\<lambda>current_time.
     seq (check_and_handle_cognito_login cfg) (\<lambda>_.
     seq context_cookies (\<lambda>current_cookies.
     seq (log_message (CHR 0x0A # ''==== CURRENT REQUEST ====''))  (\<lambda>_.
     seq page_url (\<lambda>u.
     seq (log_message (''Current URL: '' @ u)) (\<lambda>_.
     seq (log_message (''Cookies count: '' @ str_nat (length current_cookies))) (\<lambda>_.
     seq (perform_action cfg current_time sc) (\<lambda>sc'.
     seq capture_request_headers (\<lambda>hdrs.
     seq (log_header_size hdrs) (\<lambda>_.
     seq (log_new_cookies current_cookies initial_cookies) (\<lambda>_.
     seq (sleep 10) (\<lambda>_.
     ret sc'))))))))))))"

text \<open>
  \<^verbatim>\<open>while time.time() - start_time < browse_duration\<close>, for at most \<open>fuel\<close> passes:
  \<open>None\<close> when the passes are used up with time left, else the way the loop ended, by an
  exception that left it or by the end of the duration.
\<close>

fun browse_loop ::
  "nat \<Rightarrow> config \<Rightarrow> cookie list \<Rightarrow> real \<Rightarrow> sched \<Rightarrow> world \<Rightarrow> ((exn + unit) \<times> world) option" where
  "browse_loop 0 cfg initial_cookies start_time sc s = None"
| "browse_loop (Suc fuel) cfg initial_cookies start_time sc s =
     (if now s - start_time < real_of_int (browse_duration cfg) then
        (case loop_body cfg initial_cookies sc s of
           (Inl e, s') \<Rightarrow> Some (Inl e, s')
         | (Inr sc', s') \<Rightarrow> browse_loop fuel cfg initial_cookies start_time sc' s')
      else Some (Inr (), s))"

section \<open>Notions used in the statements\<close>

text \<open>The session that a log message leaves behind.\<close>

definition logged :: "string \<Rightarrow> world \<Rightarrow> world" where
  "logged message s = snd (log_message message s)"

text \<open>The \<^verbatim>\<open>href\<close> attribute that a handle stands for on a page.\<close>

definition href_on :: "page \<Rightarrow> handle \<Rightarrow> string option" where
  "href_on p h =
     (case h of Handle sel i \<Rightarrow> if i < length (elements p sel) then href (elements p sel ! i) else None)"

text \<open>Whether the coming browser call raises.\<close>

definition next_raises :: "world \<Rightarrow> bool" where
  "next_raises s = (case faults s of Some msg # fs \<Rightarrow> True | _ \<Rightarrow> False)"

text \<open>
  What a step can only add to: the calls issued, the console, the log file and the clock.
\<close>

definition grows :: "world \<Rightarrow> world \<Rightarrow> bool" where
  "grows s s' = (prefix (calls s) (calls s') \<and> prefix (console s) (console s') \<and>
     prefix (log_file s) (log_file s') \<and> now s \<le> now s')"

text \<open>A step that only adds to them, whatever its outcome.\<close>

definition growing :: "'a io \<Rightarrow> bool" where
  "growing m = (\<forall>s. grows s (snd (m s)))"

text \<open>The selector a handle was found with.\<close>

fun selector_of :: "handle \<Rightarrow> string" where
  "selector_of (Handle sel i) = sel"

text \<open>The prompts that ask the operator to log in by hand.\<close>

definition manual_prompts :: "string list" where
  "manual_prompts =
     [''Login page closed. Please login manually within 60 seconds.'',
      ''Could not find username field. Please login manually within 60 seconds.'',
      ''Could not find password field. Please login manually within 60 seconds.'',
      ''Could not find submit button. Please login manually within 60 seconds.'',
      ''Login failed. Please login manually within 60 seconds.'',
      ''Login error. Please login manually within 60 seconds.'',
      ''Please login manually (no credentials found). Waiting 60 seconds.'',
      ''Login process error. Please login manually within 60 seconds.'']"

text \<open>
  Relative to a session with \<open>n\<close> calls and \<open>k\<close> console lines: nothing was lost since;
  the last console line is a prompt written since and the last call a sleep of 60 seconds
  issued since; a submit button was clicked since.
\<close>

definition reached :: "nat \<Rightarrow> nat \<Rightarrow> world \<Rightarrow> bool" where
  "reached n k s = (n \<le> length (calls s) \<and> k \<le> length (console s))"

definition ends_manual :: "nat \<Rightarrow> nat \<Rightarrow> world \<Rightarrow> bool" where
  "ends_manual n k s =
     (n < length (calls s) \<and> last (calls s) = Sleep 60 \<and>
      k < length (console s) \<and> last (console s) \<in> set manual_prompts)"

definition submit_clicked :: "nat \<Rightarrow> world \<Rightarrow> bool" where
  "submit_clicked n s =
     (\<exists>h. selector_of h \<in> set submit_selectors \<and> Click h \<in> set (drop n (calls s)))"

text \<open>
  A step started where \<open>P\<close> holds ends with a value in a session where \<open>Q\<close> holds, or with
  an exception in a session where \<open>E\<close> holds.
\<close>

definition hoare :: "(world \<Rightarrow> bool) \<Rightarrow> 'a io \<Rightarrow> ('a \<Rightarrow> world \<Rightarrow> bool) \<Rightarrow> (world \<Rightarrow> bool) \<Rightarrow> bool" where
  "hoare P m Q E = (\<forall>s. P s \<longrightarrow> (case m s of (Inr a, s') \<Rightarrow> Q a s' | (Inl e, s') \<Rightarrow> E s'))"

text \<open>
  The rest of the login from some point on: it ends with a prompt and the sleep, or after
  a click on a submit button; an exception leaves it with nothing lost.
\<close>

definition tail :: "nat \<Rightarrow> nat \<Rightarrow> 'a io \<Rightarrow> bool" where
  "tail n k m =
     hoare (reached n k) m (\<lambda>_ s. ends_manual n k s \<or> submit_clicked n s) (reached n k)"

text \<open>The handles of the anchors of a page, and those that pass the filter, with their \<^verbatim>\<open>href\<close>.\<close>

definition anchors_of :: "page \<Rightarrow> handle list" where
  "anchors_of p = map (Handle ''a'') [0 ..< length (elements p ''a'')]"

definition kept_links :: "page \<Rightarrow> (handle \<times> string) list" where
  "kept_links p = [(l, the (href_on p l)). l \<leftarrow> anchors_of p, link_kept (href_on p l)]"

text \<open>The calls that the click on a chosen link issues when none of them raises.\<close>

definition link_calls :: "handle \<times> string \<Rightarrow> call list" where
  "link_calls lh =
     (case lh of (link, h) \<Rightarrow>
        if h \<noteq> [] \<and> \<not> startswith h ''#'' \<and> \<not> startswith h ''javascript:''
        then [Click link, WaitForLoadState ''networkidle'' None] else [])"

text \<open>A handle whose element is on the page.\<close>

fun on_page :: "page \<Rightarrow> handle \<Rightarrow> bool" where
  "on_page p (Handle sel i) = (i < length (elements p sel))"

text \<open>Some element that matches one of the selectors is visible on the page.\<close>

definition visible_on :: "page \<Rightarrow> string list \<Rightarrow> bool" where
  "visible_on p sels = list_ex (\<lambda>sel. list_ex visible (elements p sel)) sels"

text \<open>
  A session in which the page \<open>p\<close> is open and stays, and no call raises; a step that keeps
  it so and returns; and the rest of a login that, started in such a session, returns
  after a given prompt and the sleep of 60 seconds.
\<close>

definition calm :: "page \<Rightarrow> world \<Rightarrow> bool" where
  "calm p s = (faults s = [] \<and> upcoming s = [] \<and> current s = p \<and> \<not> page_closed s)"

definition calm_step :: "page \<Rightarrow> 'a io \<Rightarrow> bool" where
  "calm_step p m = (\<forall>s. calm p s \<longrightarrow> (\<exists>a s'. m s = (Inr a, s') \<and> calm p s'))"

definition calm_tail :: "page \<Rightarrow> string \<Rightarrow> unit io \<Rightarrow> bool" where
  "calm_tail p prompt m =
     (\<forall>s. calm p s \<longrightarrow>
        (\<exists>s'. m s = (Inr (), s') \<and> console s' \<noteq> [] \<and> last (console s') = prompt \<and>
              calls s' \<noteq> [] \<and> last (calls s') = Sleep 60))"

subsection \<open>Sample sessions\<close>

definition blank_page :: page where
  "blank_page = \<lparr>url = ''https://example.com/'', elements = (\<lambda>sel. []), request_headers = []\<rparr>"

definition world0 :: world where
  "world0 = \<lparr>jar = [], current = blank_page, page_closed = False, upcoming = [], faults = [],
     seeds = [], now = 0, strftime = (\<lambda>t. ''T''), json_dumps = (\<lambda>cs. ''[]''),
     log_file = [], console = [], calls = []\<rparr>"

definition anchor :: "string option \<Rightarrow> element" where
  "anchor h = \<lparr>visible = True, href = h, text_content = None\<rparr>"

text \<open>A page with four anchors, reached by navigating away from the start URL.\<close>

definition docs_page :: page where
  "docs_page =
     \<lparr>url = ''https://example.com/docs/intro'',
      elements = (\<lambda>sel. if sel = ''a''
         then [anchor (Some ''/docs/UnInstall.html''), anchor None, anchor (Some ''guide/setup''),
               anchor (Some ''#top'')]
         else []),
      request_headers = []\<rparr>"

text \<open>
  Two cookies of the same name for two hosts: one that expires, one for the browser
  session only.
\<close>

definition auth_cookie :: cookie where
  "auth_cookie =
     \<lparr>name = Some ''sid'', cvalue = Some ''1'', domain = Some ''a.example'', path = Some ''/'',
      expires = Some 1900000000, httpOnly = Some True, secure = Some True,
      sameSite = Some ''Lax''\<rparr>"

definition session_cookie :: cookie where
  "session_cookie =
     \<lparr>name = Some ''sid'', cvalue = Some ''2'', domain = Some ''b.example'', path = Some ''/'',
      expires = None, httpOnly = Some False, secure = Some False, sameSite = Some ''Lax''\<rparr>"

text \<open>
  A login page as the script expects it: each field twice under the same selector, the
  first copy hidden, the second shown or not. In the sample session all three fields are
  shown, and the environment lets every call succeed up to the click on the submit button
  and then lets both waits time out.
\<close>

definition form_field :: "bool \<Rightarrow> element list" where
  "form_field shown =
     [\<lparr>visible = False, href = None, text_content = None\<rparr>,
      \<lparr>visible = shown, href = None, text_content = None\<rparr>]"

definition form_page :: "bool \<Rightarrow> bool \<Rightarrow> bool \<Rightarrow> page" where
  "form_page u p b =
     \<lparr>url = ''https://auth.example.amazoncognito.com/login'',
      elements = (\<lambda>sel.
         if sel = hd username_selectors then form_field u
         else if sel = hd password_selectors then form_field p
         else if sel = hd submit_selectors then form_field b
         else []),
      request_headers = []\<rparr>"

definition login_world :: world where
  "login_world =
     world0\<lparr>current := form_page True True True,
       faults := [None, None, None, None, None, None, None, None, None, None, None, None, None,
                  None, None, None, None,
                  Some ''Timeout 10000ms exceeded'', Some ''Timeout 15000ms exceeded'']\<rparr>"

text \<open>The timestamps of the loop: last refresh, last return, last cookie modification.\<close>

definition sched_at :: "real \<Rightarrow> real \<Rightarrow> real \<Rightarrow> sched" where
  "sched_at a b c = \<lparr>last_refresh_time = a, last_return_time = b, last_cookie_mod_time = c\<rparr>"

definition sample_config :: config where
  "sample_config =
     \<lparr>start_url = ''https://example.com/'', browse_duration = 600, refresh_interval = 60,
      return_interval = 300, cookie_mod_interval = 120,
      COGNITO_USERNAME = ''user'', COGNITO_PASSWORD = ''secret''\<rparr>"

section \<open>Properties of the header size\<close>

lemma encode_cp_length:
  "encode_cp cp = Inr bs \<Longrightarrow> length bs = cp_width cp"
  by (auto simp: encode_cp_def cp_width_def split: if_splits)

lemma encode_cp_ok:
  "cp < 0x110000 \<Longrightarrow> \<not> (0xD800 \<le> cp \<and> cp \<le> 0xDFFF) \<Longrightarrow> \<exists>bs. encode_cp cp = Inr bs"
  by (simp add: encode_cp_def)

lemma utf8_encode_length:
  "utf8_encode s = Inr bs \<Longrightarrow> length bs = utf8_len s"
proof (induction s arbitrary: bs)
  case Nil
  then show ?case by (simp add: utf8_len_def)
next
  case (Cons cp cps)
  from Cons.prems obtain b r where
    b: "encode_cp cp = Inr b" and r: "utf8_encode cps = Inr r" and bs: "bs = b @ r"
    by (auto split: sum.splits)
  from Cons.IH [OF r] encode_cp_length [OF b] bs show ?case
    by (simp add: utf8_len_def)
qed

lemma utf8_encode_ok:
  "encodable s \<Longrightarrow> \<exists>bs. utf8_encode s = Inr bs"
proof (induction s)
  case Nil
  then show ?case by simp
next
  case (Cons cp cps)
  then have "cp < 0x110000" and "\<not> (0xD800 \<le> cp \<and> cp \<le> 0xDFFF)" and "encodable cps"
    by (simp_all add: encodable_def)
  with Cons.IH encode_cp_ok [of cp] show ?case
    by auto
qed

lemma header_loop_sum:
  assumes "\<forall>(k, v) \<in> set hs. encodable k \<and> encodable v"
  shows "header_loop hs acc = Inr (acc + (\<Sum>(k, v)\<leftarrow>hs. utf8_len k + utf8_len v + 4))"
  using assms
proof (induction hs arbitrary: acc)
  case Nil
  then show ?case by simp
next
  case (Cons h hs)
  obtain k v where h: "h = (k, v)" by (cases h)
  from Cons.prems h have ek: "encodable k" and ev: "encodable v"
    and rest: "\<forall>(k, v) \<in> set hs. encodable k \<and> encodable v"
    by auto
  from utf8_encode_ok [OF ek] obtain kb where kb: "utf8_encode k = Inr kb" ..
  from utf8_encode_ok [OF ev] obtain vb where vb: "utf8_encode v = Inr vb" ..
  from Cons.IH [OF rest] kb vb utf8_encode_length [OF kb] utf8_encode_length [OF vb] h
  show ?case by simp
qed

text \<open>
  C8. \<^verbatim>\<open>calculate_header_size\<close> returns 0 for \<open>None\<close> and for the empty mapping, without
  the final CRLF. For a non-empty mapping whose names and values have a UTF-8 encoding it
  returns the sum over the entries of the byte length of the name, the byte length of the
  value and 4, plus 2 for the final CRLF.
\<close>

theorem calculate_header_size_value:
  "calculate_header_size None = Inr 0 \<and>
   calculate_header_size (Some []) = Inr 0 \<and>
   (hs \<noteq> [] \<and> (\<forall>(k, v) \<in> set hs. encodable k \<and> encodable v) \<longrightarrow>
      calculate_header_size (Some hs)
        = Inr ((\<Sum>(k, v)\<leftarrow>hs. utf8_len k + utf8_len v + 4) + 2))"
proof -
  have "calculate_header_size (Some hs)
        = Inr ((\<Sum>(k, v)\<leftarrow>hs. utf8_len k + utf8_len v + 4) + 2)"
    if ne: "hs \<noteq> []" and enc: "\<forall>(k, v) \<in> set hs. encodable k \<and> encodable v"
  proof -
    from ne obtain h t where ht: "hs = h # t" by (cases hs) auto
    from header_loop_sum [OF enc, of 0] ht show ?thesis
      by (simp add: calculate_header_size_def)
  qed
  then show ?thesis
    by (simp add: calculate_header_size_def)
qed

text \<open>
  Two headers: the name \<^verbatim>\<open>a\<close> with the value \<^verbatim>\<open>bc\<close>, and the euro sign U+20AC (three
  bytes) with the empty value: (1 + 2 + 4) + (3 + 0 + 4) + 2 = 16.
\<close>

theorem calculate_header_size_value_witness:
  "[([97], [98, 99]), ([0x20AC], [])] \<noteq> ([] :: headers) \<and>
   encodable [97] \<and> encodable [98, 99] \<and> encodable [0x20AC] \<and> encodable [] \<and>
   calculate_header_size (Some [([97], [98, 99]), ([0x20AC], [])]) = Inr 16"
  using calculate_header_size_value [of "[([97], [98, 99]), ([0x20AC], [])]"]
  by (simp add: encodable_def utf8_len_def cp_width_def)

section \<open>Strings\<close>

lemma startswith_iff: "startswith s p \<longleftrightarrow> (\<exists>q. s = p @ q)"
  by (induction s p rule: startswith.induct) auto

lemma contains_iff: "contains sub s \<longleftrightarrow> (\<exists>p q. s = p @ sub @ q)"
proof (induction s)
  case Nil
  then show ?case by auto
next
  case (Cons c cs)
  show ?case
  proof
    assume "contains sub (c # cs)"
    then consider "startswith (c # cs) sub" | "contains sub cs" by auto
    then show "\<exists>p q. c # cs = p @ sub @ q"
    proof cases
      case 1
      then obtain q where "c # cs = sub @ q" by (auto simp: startswith_iff)
      then have "c # cs = [] @ sub @ q" by simp
      then show ?thesis by blast
    next
      case 2
      with Cons.IH obtain p q where "cs = p @ sub @ q" by auto
      then have "c # cs = (c # p) @ sub @ q" by simp
      then show ?thesis by blast
    qed
  next
    assume "\<exists>p q. c # cs = p @ sub @ q"
    then obtain p q where pq: "c # cs = p @ sub @ q" by blast
    show "contains sub (c # cs)"
    proof (cases p)
      case Nil
      with pq have "startswith (c # cs) sub" by (auto simp: startswith_iff)
      then show ?thesis by simp
    next
      case (Cons a p')
      with pq have "cs = p' @ sub @ q" by simp
      with Cons.IH have "contains sub cs" by blast
      then show ?thesis by simp
    qed
  qed
qed

lemma lower_append: "lower (a @ b) = lower a @ lower b"
  by (simp add: lower_def)

section \<open>Steps of the script\<close>

lemmas io_defs = ret_def raise_def seq_def try_except_def gets_def modify_def lift_def

lemma url_line_Some:
  "list_ex (\<lambda>i. contains i m) inds \<Longrightarrow>
     \<exists>i \<in> set inds. contains i m \<and>
       url_line inds ts m = Some (''['' @ ts @ ''] '' @ i @ first_line (after_first i m))"
  by (induction inds) auto

lemma log_message_run: "log_message message s = (Inr (), logged message s)"
  by (auto simp: logged_def log_message_def io_defs print_def split: option.splits)

lemma logged_frame:
  "calls (logged m s) = calls s" "faults (logged m s) = faults s" "jar (logged m s) = jar s"
  "current (logged m s) = current s" "upcoming (logged m s) = upcoming s"
  "page_closed (logged m s) = page_closed s" "seeds (logged m s) = seeds s"
  "now (logged m s) = now s" "strftime (logged m s) = strftime s"
  "json_dumps (logged m s) = json_dumps s"
  "log_file (logged m s) = log_file s @ [log_entry (strftime s (now s)) m]"
  by (auto simp: logged_def log_message_def io_defs print_def split: option.splits)

lemma browser_call_frame:
  assumes "browser_call c s = (r, s')"
  shows "current s' = current s" "upcoming s' = upcoming s" "jar s' = jar s" "now s' = now s"
    "calls s' = calls s @ [c]" "console s' = console s" "log_file s' = log_file s"
    "seeds s' = seeds s" "page_closed s' = page_closed s"
    "faults s' = tl (faults s)" "r = Inl e \<longleftrightarrow> faults s \<noteq> [] \<and> (\<exists>m. e = PlaywrightError m \<and> hd (faults s) = Some m)"
  using assms by (auto simp: browser_call_def split: list.splits option.splits)

lemmas eval_defs = io_defs browser_call_def load_next_def arrive_def page_goto_def page_reload_def
  wait_for_load_state_def wait_for_function_def page_url_def is_closed_def context_cookies_def
  clear_cookies_def add_cookies_def query_selector_all_def query_selector_def resolve_def
  is_visible_def get_attribute_def get_text_content_def click_def fill_def sleep_def time_time_def
  print_def randint_def py_index_def py_str_def log_message_def log_entry_def url_indicators_def
  world0_def blank_page_def docs_page_def anchor_def sample_config_def

section \<open>The logger\<close>

text \<open>
  C5, as the code has it. \<^verbatim>\<open>log_message\<close> never raises and appends every message, with
  its timestamp, to the log file. It prints one console line exactly when the message
  contains one of the five URL indicators, or else contains
  \<^verbatim>\<open>==== BROWSING SESSION COMPLETE ====\<close> or \<^verbatim>\<open>Starting \<close>. For a message with an indicator
  the line is the timestamp, an indicator that occurs and the text after its first
  occurrence up to the end of that line; for the other printed messages it is the whole
  log entry.
\<close>

theorem log_message_console:
  "fst (log_message message s) = Inr () \<and>
   log_file (snd (log_message message s)) = log_file s @ [log_entry (strftime s (now s)) message] \<and>
   (console (snd (log_message message s)) \<noteq> console s \<longleftrightarrow>
      (\<exists>i \<in> set url_indicators. contains i message) \<or>
      contains ''==== BROWSING SESSION COMPLETE ===='' message \<or> contains ''Starting '' message) \<and>
   ((\<exists>i \<in> set url_indicators. contains i message) \<longrightarrow>
      (\<exists>i \<in> set url_indicators. contains i message \<and>
         console (snd (log_message message s))
           = console s @ [''['' @ strftime s (now s) @ ''] '' @ i @ first_line (after_first i message)])) \<and>
   (\<not> (\<exists>i \<in> set url_indicators. contains i message) \<and>
     (contains ''==== BROWSING SESSION COMPLETE ===='' message \<or> contains ''Starting '' message) \<longrightarrow>
      console (snd (log_message message s)) = console s @ [log_entry (strftime s (now s)) message])"
proof (cases "list_ex (\<lambda>i. contains i message) url_indicators")
  case True
  from url_line_Some [OF True, of "strftime s (now s)"] obtain i where
    i: "i \<in> set url_indicators" "contains i message"
      "url_line url_indicators (strftime s (now s)) message
         = Some (''['' @ strftime s (now s) @ ''] '' @ i @ first_line (after_first i message))"
    by blast
  with True show ?thesis
    by (auto simp: log_message_def io_defs print_def list_ex_iff)
next
  case False
  then show ?thesis
    by (auto simp: log_message_def io_defs print_def list_ex_iff)
qed

text \<open>A navigation message is cut down to its URL, and a message about cookies is not printed.\<close>

theorem log_message_console_witness:
  "contains ''Navigating to '' ''Navigating to https://example.com'' \<and>
   console (snd (log_message ''Navigating to https://example.com'' world0))
     = [''[T] Navigating to https://example.com''] \<and>
   console (snd (log_message ''Cookies count: 3'' world0)) = []"
  using log_message_console [of "''Navigating to https://example.com''" world0]
    log_message_console [of "''Cookies count: 3''" world0]
  by (simp add: url_indicators_def world0_def first_line_def)

text \<open>
  C5 as stated fails: the message that ends the session contains none of the five
  indicators, and the logger prints it.
\<close>

theorem log_message_banner_printed:
  "\<not> contains ''Navigating to '' (CHR 0x0A # ''==== BROWSING SESSION COMPLETE ===='') \<and>
   \<not> contains ''Returning to starting page: '' (CHR 0x0A # ''==== BROWSING SESSION COMPLETE ===='') \<and>
   \<not> contains ''Current URL: '' (CHR 0x0A # ''==== BROWSING SESSION COMPLETE ===='') \<and>
   \<not> contains ''Clicking link: '' (CHR 0x0A # ''==== BROWSING SESSION COMPLETE ===='') \<and>
   \<not> contains ''Starting automated browsing at '' (CHR 0x0A # ''==== BROWSING SESSION COMPLETE ===='') \<and>
   console (snd (log_message (CHR 0x0A # ''==== BROWSING SESSION COMPLETE ===='') world0))
     = [''[T] '' @ CHR 0x0A # ''==== BROWSING SESSION COMPLETE ===='']"
  by (simp add: log_message_def io_defs print_def url_indicators_def log_entry_def world0_def)

section \<open>The link filter and the random choice\<close>

lemma link_kept_iff:
  "link_kept h \<longleftrightarrow>
     (\<exists>t. h = Some t \<and> t \<noteq> [] \<and> (\<forall>w \<in> set bad_link_words. \<not> (\<exists>p q. lower t = p @ w @ q)))"
  by (cases h) (auto simp: link_kept_def list_ex_iff contains_iff)

lemma randint_range:
  "\<exists>r s'. randint a b s = (Inr r, s') \<and> a \<le> r \<and> r \<le> b" if "a \<le> b"
proof (cases "seeds s")
  case Nil
  then show ?thesis using that by (simp add: randint_def)
next
  case (Cons x xs)
  have "x mod nat (b - a + 1) < nat (b - a + 1)" using that by simp
  then have "int (x mod nat (b - a + 1)) < b - a + 1" using that by linarith
  then show ?thesis using that Cons by (simp add: randint_def)
qed

lemma get_attribute_result:
  assumes "get_attribute l a s = (Inr h, s')"
  shows "current s' = current s \<and> h = (if a = ''href'' then href_on (current s) l else None)"
proof -
  obtain sel i where l: "l = Handle sel i" by (cases l)
  from assms l show ?thesis
    by (auto simp: get_attribute_def io_defs resolve_def href_on_def browser_call_def
        split: list.splits option.splits if_splits)
qed

lemma filter_links_result:
  "filter_links links acc s = (Inr out, s') \<Longrightarrow>
     current s' = current s \<and>
     out = acc @ [(l, the (href_on (current s) l)). l \<leftarrow> links, link_kept (href_on (current s) l)]"
proof (induction links arbitrary: acc s)
  case Nil
  then show ?case by (simp add: ret_def)
next
  case (Cons link links)
  obtain r1 s1 where g: "get_attribute link ''href'' s = (r1, s1)" by (cases "get_attribute link ''href'' s")
  show ?case
  proof (cases r1)
    case (Inl e)
    with Cons.prems g show ?thesis by (simp add: seq_def)
  next
    case (Inr h)
    with g have g': "get_attribute link ''href'' s = (Inr h, s1)" by simp
    from get_attribute_result [OF g'] have cur: "current s1 = current s"
      and h: "h = href_on (current s) link" by simp_all
    show ?thesis
    proof (cases "link_kept h")
      case True
      with Cons.prems g' have "filter_links links (acc @ [(link, the h)]) s1 = (Inr out, s')"
        by (simp add: seq_def)
      from Cons.IH [OF this, unfolded cur] h True show ?thesis by simp
    next
      case False
      with Cons.prems g' have "filter_links links acc s1 = (Inr out, s')"
        by (simp add: seq_def)
      from Cons.IH [OF this, unfolded cur] h False show ?thesis by simp
    qed
  qed
qed

text \<open>
  C4. A link stays in the filtered list if and only if its \<^verbatim>\<open>href\<close> is present and not
  empty and its lower-cased form contains none of the four blocklisted words; so an \<^verbatim>\<open>href\<close>
  with a part that reads as a blocklisted word in any letter case is left out. When the
  filtering loop ends without an exception, its result is exactly the list of the kept
  links with their \<^verbatim>\<open>href\<close>, in page order.
\<close>

theorem link_filter_blocklist:
  "(link_kept h \<longleftrightarrow>
      (\<exists>t. h = Some t \<and> t \<noteq> [] \<and> (\<forall>w \<in> set bad_link_words. \<not> contains w (lower t)))) \<and>
   (w \<in> set bad_link_words \<and> lower u = w \<longrightarrow> \<not> link_kept (Some (p @ u @ q))) \<and>
   (filter_links links [] s = (Inr out, s') \<longrightarrow>
      out = [(l, the (href_on (current s) l)). l \<leftarrow> links, link_kept (href_on (current s) l)])"
proof (intro conjI impI)
  show "link_kept h \<longleftrightarrow>
      (\<exists>t. h = Some t \<and> t \<noteq> [] \<and> (\<forall>w \<in> set bad_link_words. \<not> contains w (lower t)))"
    by (cases h) (auto simp: link_kept_def list_ex_iff)
next
  assume a: "w \<in> set bad_link_words \<and> lower u = w"
  then have "lower (p @ u @ q) = lower p @ w @ lower q"
    by (simp add: lower_append)
  with a show "\<not> link_kept (Some (p @ u @ q))"
    unfolding link_kept_iff by blast
next
  assume "filter_links links [] s = (Inr out, s')"
  from filter_links_result [OF this]
  show "out = [(l, the (href_on (current s) l)). l \<leftarrow> links, link_kept (href_on (current s) l)]"
    by simp
qed

text \<open>
  On the sample page the anchors with \<^verbatim>\<open>/docs/UnInstall.html\<close> and with no \<^verbatim>\<open>href\<close> go, the
  other two stay.
\<close>

theorem link_filter_blocklist_witness:
  "link_kept (Some ''guide/setup'') \<and> \<not> link_kept (Some ''/docs/UnInstall.html'') \<and> \<not> link_kept (Some '''') \<and>
   \<not> link_kept None \<and> ''install'' \<in> set bad_link_words \<and> lower ''Install'' = ''install'' \<and>
   fst (filter_links [Handle ''a'' 0, Handle ''a'' 1, Handle ''a'' 2, Handle ''a'' 3] [] (world0\<lparr>current := docs_page\<rparr>))
     = Inr [(Handle ''a'' 2, ''guide/setup''), (Handle ''a'' 3, ''#top'')]"
  using link_filter_blocklist [of "Some ''/docs/UnInstall.html''" "''install''" "''Install''" "''/docs/Un''" "''.html''"
     "[Handle ''a'' 0, Handle ''a'' 1, Handle ''a'' 2, Handle ''a'' 3]" "world0\<lparr>current := docs_page\<rparr>"]
  by (simp add: eval_defs link_kept_def bad_link_words_def lower_def lower_char_def char_of_eq_iff)

text \<open>
  C6. With a non-empty filtered list of \<open>n\<close> entries, whatever the random source, the
  index returned by \<^verbatim>\<open>random.randint(0, min(9, n-1))\<close> lies between 0 and \<open>min(9, n-1)\<close>, the
  indexing does not raise, and the link picked is one of the first ten of the list.
\<close>

theorem random_choice_in_range:
  assumes "filtered_links \<noteq> []"
  shows "\<exists>r s'. randint 0 (choice_bound filtered_links) s = (Inr r, s') \<and>
           0 \<le> r \<and> r \<le> min 9 (int (length filtered_links) - 1) \<and>
           nat r < length filtered_links \<and>
           py_index filtered_links r s' = (Inr (filtered_links ! nat r), s') \<and>
           filtered_links ! nat r \<in> set (take 10 filtered_links)"
proof -
  from assms have len: "0 < length filtered_links" by simp
  then have "0 \<le> choice_bound filtered_links" by (simp add: choice_bound_def)
  from randint_range [OF this, of s] obtain r s' where
    r: "randint 0 (choice_bound filtered_links) s = (Inr r, s')" "0 \<le> r" "r \<le> choice_bound filtered_links"
    by blast
  from r(2,3) len have a: "nat r < length filtered_links" and b: "nat r < 10"
    and c: "r < int (length filtered_links)"
    by (auto simp: choice_bound_def)
  have "filtered_links ! nat r = take 10 filtered_links ! nat r" using b by simp
  moreover have "nat r < length (take 10 filtered_links)" using a b by simp
  ultimately have "filtered_links ! nat r \<in> set (take 10 filtered_links)"
    by (metis nth_mem)
  with a c r show ?thesis
    by (auto simp: py_index_def ret_def choice_bound_def)
qed

text \<open>With three links and the seed 7 the second link is picked.\<close>

theorem random_choice_in_range_witness:
  "[''a'', ''b'', ''c''] \<noteq> [] \<and> randint 0 (choice_bound [''a'', ''b'', ''c'']) (world0\<lparr>seeds := [7]\<rparr>) = (Inr 1, world0\<lparr>seeds := []\<rparr>)
    \<and> py_index [''a'', ''b'', ''c''] 1 world0 = (Inr ''b'', world0)"
  using random_choice_in_range [of "[''a'', ''b'', ''c'']" "world0\<lparr>seeds := [7]\<rparr>"]
  by (simp add: eval_defs choice_bound_def)


lemma lstrip_split:
  "\<exists>n. s = replicate n c @ lstrip c s" "\<not> (\<exists>t. lstrip c s = c # t)"
proof -
  have "s = takeWhile (\<lambda>x. x = c) s @ dropWhile (\<lambda>x. x = c) s" by simp
  moreover have "takeWhile (\<lambda>x. x = c) s = replicate (length (takeWhile (\<lambda>x. x = c) s)) c"
    by (induction s) auto
  ultimately have "s = replicate (length (takeWhile (\<lambda>x. x = c) s)) c @ lstrip c s"
    by (simp add: lstrip_def)
  then show "\<exists>n. s = replicate n c @ lstrip c s" ..
  show "\<not> (\<exists>t. lstrip c s = c # t)"
  proof
    assume "\<exists>t. lstrip c s = c # t"
    then obtain t where t: "dropWhile (\<lambda>x. x = c) s = c # t" by (auto simp: lstrip_def)
    then have "dropWhile (\<lambda>x. x = c) s \<noteq> []" by simp
    from hd_dropWhile [OF this] t show False by simp
  qed
qed

lemma rstrip_split:
  "\<exists>n. s = rstrip c s @ replicate n c" "\<not> (\<exists>t. rstrip c s = t @ [c])"
proof -
  from lstrip_split(1) [where s = "rev s" and c = c] obtain n where "rev s = replicate n c @ lstrip c (rev s)" ..
  then have "rev (rev s) = rev (replicate n c @ lstrip c (rev s))" by simp
  then have "s = rstrip c s @ replicate n c" by (simp add: rstrip_def lstrip_def)
  then show "\<exists>n. s = rstrip c s @ replicate n c" ..
  show "\<not> (\<exists>t. rstrip c s = t @ [c])"
  proof
    assume "\<exists>t. rstrip c s = t @ [c]"
    then obtain t where "rev (lstrip c (rev s)) = t @ [c]" by (auto simp: rstrip_def lstrip_def)
    then have "rev (rev (lstrip c (rev s))) = rev (t @ [c])" by simp
    then have "lstrip c (rev s) = c # rev t" by simp
    with lstrip_split(2) [where s = "rev s" and c = c] show False by blast
  qed
qed

lemma click_link_fallback:
  assumes "h \<noteq> []" "\<not> startswith h ''#''" "\<not> startswith h ''javascript:''"
    and "faults s = Some msg # fs"
  shows "fst (click_link cfg link h s) = Inr ()"
    "calls (snd (click_link cfg link h s)) = calls s @ [Click link, Goto (full_url (start_url cfg) h)]"
  using assms
  by (auto simp: click_link_def try_except_def seq_def log_message_run logged_frame click_def
      page_goto_def browser_call_def modify_def arrive_def split: list.splits option.splits)

text \<open>
  C10. The address of the fallback is the \<^verbatim>\<open>href\<close> itself when it starts with \<^verbatim>\<open>http\<close>,
  and otherwise the start URL without its trailing slashes, a slash, and the \<^verbatim>\<open>href\<close>
  without its leading slashes. When the click raises, the fallback navigates to that
  address: the URL of the current page plays no part.
\<close>

theorem click_fallback_start_url:
  "(startswith h ''http'' \<longrightarrow> full_url u h = h) \<and>
   (\<not> startswith h ''http'' \<longrightarrow> full_url u h = rstrip (CHR ''/'') u @ ''/'' @ lstrip (CHR ''/'') h) \<and>
   (\<exists>m. u = rstrip (CHR ''/'') u @ replicate m (CHR ''/'')) \<and>
   \<not> (\<exists>t. rstrip (CHR ''/'') u = t @ ''/'') \<and>
   (\<exists>n. h = replicate n (CHR ''/'') @ lstrip (CHR ''/'') h) \<and>
   \<not> (\<exists>t. lstrip (CHR ''/'') h = ''/'' @ t) \<and>
   (h \<noteq> [] \<and> \<not> startswith h ''#'' \<and> \<not> startswith h ''javascript:'' \<and> faults s = Some msg # fs \<longrightarrow>
      fst (click_link cfg link h s) = Inr () \<and>
      calls (snd (click_link cfg link h s))
        = calls s @ [Click link, Goto (full_url (start_url cfg) h)])"
  using lstrip_split [where s = h and c = "CHR ''/''"] rstrip_split [where s = u and c = "CHR ''/''"]
    click_link_fallback [of h s msg fs cfg link]
  by (simp add: full_url_def)

text \<open>
  On the page \<^verbatim>\<open>https://example.com/docs/intro\<close> a failed click on \<^verbatim>\<open>guide/setup\<close> leads to
  \<^verbatim>\<open>https://example.com/guide/setup\<close>.
\<close>

theorem click_fallback_start_url_witness:
  "\<not> startswith ''guide/setup'' ''http'' \<and> startswith ''https://other.example/x'' ''http'' \<and>
   full_url ''https://example.com/'' ''guide/setup'' = ''https://example.com/guide/setup'' \<and>
   full_url ''https://example.com/'' ''https://other.example/x'' = ''https://other.example/x'' \<and>
   url (current (world0\<lparr>current := docs_page, faults := [Some ''Timeout 30000ms exceeded'']\<rparr>))
     = ''https://example.com/docs/intro'' \<and>
   calls (snd (click_link sample_config (Handle ''a'' 2) ''guide/setup''
            (world0\<lparr>current := docs_page, faults := [Some ''Timeout 30000ms exceeded'']\<rparr>)))
     = [Click (Handle ''a'' 2), Goto ''https://example.com/guide/setup'']"
  using click_fallback_start_url [of "''guide/setup''" "''https://example.com/''"
      "world0\<lparr>current := docs_page, faults := [Some ''Timeout 30000ms exceeded'']\<rparr>"
      "''Timeout 30000ms exceeded''" "[]" sample_config "Handle ''a'' 2"]
    click_fallback_start_url [of "''https://other.example/x''" "''https://example.com/''"]
  by (simp add: full_url_def rstrip_def lstrip_def world0_def docs_page_def sample_config_def)

section \<open>Cookie modification\<close>

lemma collect_modified_none:
  "\<forall>c \<in> set cs. expires c = None \<Longrightarrow> collect_modified cs acc s = (Inr acc, s)"
  by (induction cs arbitrary: acc) (auto simp: ret_def)

lemma logged_plain:
  assumes "\<not> list_ex (\<lambda>i. contains i m) url_indicators"
    and "\<not> contains ''==== BROWSING SESSION COMPLETE ===='' m" and "\<not> contains ''Starting '' m"
  shows "logged m s = s\<lparr>log_file := log_file s @ [log_entry (strftime s (now s)) m]\<rparr>"
  using assms by (simp add: logged_def log_message_def io_defs)

lemma faults_tl_Nil: "faults s = [] \<Longrightarrow> s\<lparr>faults := []\<rparr> = s"
  by (cases s) simp

text \<open>
  C9. When no cookie of the snapshot has the key \<^verbatim>\<open>expires\<close>, \<^verbatim>\<open>modify_auth_cookies\<close>
  only reads the cookies and writes to the log (the heading of the section and the line
  \<^verbatim>\<open>No auth cookies found to modify\<close>): the cookies of the context, the page and the
  console stay as they are, and no call other than \<^verbatim>\<open>context.cookies()\<close> is issued. If
  that call raises, nothing else happens at all.
\<close>

theorem modify_auth_cookies_nothing_to_modify:
  assumes "\<forall>c \<in> set (jar s). expires c = None"
  shows "modify_auth_cookies s =
     (if next_raises s
      then (Inl (PlaywrightError (the (hd (faults s)))),
            s\<lparr>calls := calls s @ [ContextCookies], faults := tl (faults s)\<rparr>)
      else (Inr (),
            s\<lparr>calls := calls s @ [ContextCookies], faults := tl (faults s),
              log_file := log_file s @
                [log_entry (strftime s (now s)) (CHR 0x0A # ''==== MODIFYING AUTH COOKIES ====''),
                 log_entry (strftime s (now s)) ''No auth cookies found to modify'']\<rparr>))"
proof -
  have m1: "logged (CHR 0x0A # ''==== MODIFYING AUTH COOKIES ===='') t
      = t\<lparr>log_file := log_file t @ [log_entry (strftime t (now t)) (CHR 0x0A # ''==== MODIFYING AUTH COOKIES ===='')]\<rparr>" for t
    by (rule logged_plain) (simp_all add: url_indicators_def)
  have m2: "logged ''No auth cookies found to modify'' t
      = t\<lparr>log_file := log_file t @ [log_entry (strftime t (now t)) ''No auth cookies found to modify'']\<rparr>" for t
    by (rule logged_plain) (simp_all add: url_indicators_def)
  show ?thesis
  proof (cases "faults s")
    case Nil
    with assms show ?thesis
      by (simp add: modify_auth_cookies_def context_cookies_def seq_def browser_call_def gets_def
          log_message_run m1 m2 collect_modified_none next_raises_def faults_tl_Nil)
  next
    case (Cons f fs)
    with assms show ?thesis
      by (cases f) (simp_all add: modify_auth_cookies_def context_cookies_def seq_def
          browser_call_def gets_def log_message_run m1 m2 collect_modified_none next_raises_def)
  qed
qed


theorem modify_auth_cookies_nothing_to_modify_witness:
  "expires session_cookie = None \<and>
   modify_auth_cookies (world0\<lparr>jar := [session_cookie]\<rparr>)
     = (Inr (),
        world0\<lparr>jar := [session_cookie], calls := [ContextCookies],
          log_file := [''[T] '' @ CHR 0x0A # ''==== MODIFYING AUTH COOKIES ===='',
                       ''[T] No auth cookies found to modify'']\<rparr>)"
  using modify_auth_cookies_nothing_to_modify [of "world0\<lparr>jar := [session_cookie]\<rparr>"]
  by (simp add: world0_def session_cookie_def next_raises_def log_entry_def)


section \<open>Steps only add to the record\<close>

lemma grows_refl: "grows s s"
  by (simp add: grows_def)

lemma grows_trans: "grows s t \<Longrightarrow> grows t u \<Longrightarrow> grows s u"
  by (auto simp: grows_def intro: prefix_order.trans)

lemma growingD: "growing m \<Longrightarrow> m s = (r, s') \<Longrightarrow> grows s s'"
  by (auto simp: growing_def dest: spec [of _ s])

lemma growing_ret: "growing (ret a)"
  by (simp add: growing_def ret_def grows_refl)

lemma growing_raise: "growing (raise e)"
  by (simp add: growing_def raise_def grows_refl)

lemma growing_gets: "growing (gets f)"
  by (simp add: growing_def gets_def grows_refl)

lemma growing_lift: "growing (lift r)"
  by (cases r) (simp_all add: lift_def growing_ret growing_raise)

lemma growing_seq:
  assumes "growing m" and "\<And>a. growing (f a)"
  shows "growing (seq m f)"
  unfolding growing_def
proof
  fix s
  obtain r s1 where m: "m s = (r, s1)" by (cases "m s")
  from growingD [OF assms(1) m] have g1: "grows s s1" .
  show "grows s (snd (seq m f s))"
  proof (cases r)
    case (Inl e)
    with m g1 show ?thesis by (simp add: seq_def)
  next
    case (Inr a)
    obtain r2 s2 where f: "f a s1 = (r2, s2)" by (cases "f a s1")
    from growingD [OF assms(2) f] g1 have "grows s s2" by (blast intro: grows_trans)
    with m Inr f show ?thesis by (simp add: seq_def)
  qed
qed

lemma growing_try:
  assumes "growing m" and "\<And>e. growing (h e)"
  shows "growing (try_except m h)"
  unfolding growing_def
proof
  fix s
  obtain r s1 where m: "m s = (r, s1)" by (cases "m s")
  from growingD [OF assms(1) m] have g1: "grows s s1" .
  show "grows s (snd (try_except m h s))"
  proof (cases r)
    case (Inr a)
    with m g1 show ?thesis by (simp add: try_except_def)
  next
    case (Inl e)
    obtain r2 s2 where f: "h e s1 = (r2, s2)" by (cases "h e s1")
    from growingD [OF assms(2) f] g1 have "grows s s2" by (blast intro: grows_trans)
    with m Inl f show ?thesis by (simp add: try_except_def)
  qed
qed

lemma growing_if: "growing a \<Longrightarrow> growing b \<Longrightarrow> growing (if c then a else b)"
  by simp

lemma growing_option: "growing a \<Longrightarrow> (\<And>x. growing (b x)) \<Longrightarrow> growing (case v of None \<Rightarrow> a | Some x \<Rightarrow> b x)"
  by (cases v) simp_all

lemma growing_prod: "(\<And>x y. growing (b x y)) \<Longrightarrow> growing (case v of (x, y) \<Rightarrow> b x y)"
  by (cases v) simp_all

lemma growing_browser_call: "growing (browser_call c)"
  by (auto simp: growing_def grows_def browser_call_def split: list.splits option.splits)

lemma growing_load: "growing (modify load_next)" "growing (modify (arrive u))"
  by (auto simp: growing_def grows_def modify_def load_next_def arrive_def split: list.splits)

lemma growing_log_message: "growing (log_message m)"
  by (auto simp: growing_def grows_def log_message_def io_defs print_def split: option.splits)

lemma growing_modify: "(\<And>s. grows s (f s)) \<Longrightarrow> growing (modify f)"
  by (simp add: growing_def modify_def)

lemma growing_prims:
  "growing (page_goto u)" "growing (page_reload t)" "growing (wait_for_load_state st t)"
  "growing (wait_for_function n)" "growing page_url" "growing is_closed" "growing context_cookies"
  "growing clear_cookies" "growing (add_cookies cs)" "growing (query_selector_all sel)"
  "growing (query_selector sel)" "growing (click h)" "growing (fill h txt)" "growing (sleep d)"
  "growing time_time" "growing (print line)"
  unfolding page_goto_def page_reload_def wait_for_load_state_def wait_for_function_def page_url_def
    is_closed_def context_cookies_def clear_cookies_def add_cookies_def query_selector_all_def
    query_selector_def click_def fill_def time_time_def sleep_def print_def
  by (intro growing_seq growing_browser_call growing_gets growing_load growing_modify;
      simp add: grows_def)+

lemma growing_resolve: "growing (resolve h)"
  by (cases h) (simp add: growing_def resolve_def grows_refl)

lemma growing_elem:
  "growing (is_visible h)" "growing (get_attribute h a)" "growing (get_text_content h)"
  unfolding is_visible_def get_attribute_def get_text_content_def
  by (intro growing_seq growing_browser_call growing_resolve growing_ret)+

lemma growing_randint: "growing (randint a b)"
  by (auto simp: growing_def grows_def randint_def split: list.splits)

lemma growing_py_index: "growing (py_index xs i)"
  by (simp add: py_index_def growing_ret growing_raise)

lemmas growing_intros = growing_seq growing_try growing_ret growing_raise growing_gets growing_lift
  growing_browser_call growing_log_message growing_prims growing_elem growing_randint
  growing_py_index growing_if growing_option growing_prod

lemma growing_collect_modified: "growing (collect_modified cs acc)"
  by (induction cs arbitrary: acc) (auto intro!: growing_intros split: option.splits)

lemma growing_modify_auth_cookies: "growing modify_auth_cookies"
  unfolding modify_auth_cookies_def
  by (intro growing_intros growing_collect_modified allI impI)

lemma growing_first_visible: "growing (first_visible els)"
  by (induction els) (auto intro!: growing_intros)

lemma growing_find_visible_element: "growing (find_visible_element sels)"
  by (induction sels) (auto intro!: growing_intros growing_first_visible split: option.splits)

lemma growing_after_submit: "growing (after_submit u)"
  unfolding after_submit_def
  by (intro growing_intros allI impI)

lemma growing_submit_step: "growing submit_step"
  unfolding submit_step_def
  by (intro growing_intros growing_find_visible_element growing_after_submit)

lemma growing_password_step: "growing (password_step cfg)"
  unfolding password_step_def
  by (intro growing_intros growing_find_visible_element growing_submit_step)

lemma growing_username_step: "growing (username_step cfg)"
  unfolding username_step_def
  by (intro growing_intros growing_find_visible_element growing_password_step)

lemma growing_handle_cognito_login: "growing (handle_cognito_login cfg)"
  unfolding handle_cognito_login_def
  by (intro growing_intros growing_username_step)

section \<open>Login\<close>

lemma reached_grows: "reached n k s \<Longrightarrow> grows s s' \<Longrightarrow> reached n k s'"
  by (auto simp: reached_def grows_def dest!: prefix_length_le)

lemma submit_clicked_grows:
  assumes "submit_clicked n s" and "grows s s'"
  shows "submit_clicked n s'"
proof -
  from assms(2) obtain ext where ext: "calls s' = calls s @ ext"
    by (auto simp: grows_def prefix_def)
  from assms(1) obtain h where h: "selector_of h \<in> set submit_selectors"
    "Click h \<in> set (drop n (calls s))" by (auto simp: submit_clicked_def)
  from h(2) ext have "Click h \<in> set (drop n (calls s'))" by simp
  with h(1) show ?thesis by (auto simp: submit_clicked_def)
qed

lemma tailI:
  assumes "\<And>s a s'. reached n k s \<Longrightarrow> m s = (Inr a, s') \<Longrightarrow> ends_manual n k s' \<or> submit_clicked n s'"
    and "\<And>s e s'. reached n k s \<Longrightarrow> m s = (Inl e, s') \<Longrightarrow> reached n k s'"
  shows "tail n k m"
  unfolding tail_def hoare_def using assms by (auto split: sum.splits prod.splits)

lemma tail_Inr: "tail n k m \<Longrightarrow> reached n k s \<Longrightarrow> m s = (Inr a, s') \<Longrightarrow> ends_manual n k s' \<or> submit_clicked n s'"
  by (auto simp: tail_def hoare_def dest!: spec [of _ s])

lemma tail_Inl: "tail n k m \<Longrightarrow> reached n k s \<Longrightarrow> m s = (Inl e, s') \<Longrightarrow> reached n k s'"
  by (auto simp: tail_def hoare_def dest!: spec [of _ s])

lemma tail_seq:
  assumes "growing m" and "\<And>a. tail n k (f a)"
  shows "tail n k (seq m f)"
proof (rule tailI)
  fix s a s'
  assume r: "reached n k s" and run: "seq m f s = (Inr a, s')"
  obtain r1 s1 where m: "m s = (r1, s1)" by (cases "m s")
  from reached_grows [OF r growingD [OF assms(1) m]] have r1: "reached n k s1" .
  from run m obtain b where "r1 = Inr b" "f b s1 = (Inr a, s')"
    by (cases r1) (auto simp: seq_def)
  with tail_Inr [OF assms(2) r1] show "ends_manual n k s' \<or> submit_clicked n s'" by blast
next
  fix s e s'
  assume r: "reached n k s" and run: "seq m f s = (Inl e, s')"
  obtain r1 s1 where m: "m s = (r1, s1)" by (cases "m s")
  from reached_grows [OF r growingD [OF assms(1) m]] have r1: "reached n k s1" .
  show "reached n k s'"
  proof (cases r1)
    case (Inl e1)
    with run m r1 show ?thesis by (simp add: seq_def)
  next
    case (Inr b)
    with run m have "f b s1 = (Inl e, s')" by (simp add: seq_def)
    from tail_Inl [OF assms(2) r1 this] show ?thesis .
  qed
qed

lemma tail_try:
  assumes "tail n k m" and "\<And>e. tail n k (h e)"
  shows "tail n k (try_except m h)"
proof (rule tailI)
  fix s a s'
  assume r: "reached n k s" and run: "try_except m h s = (Inr a, s')"
  obtain r1 s1 where m: "m s = (r1, s1)" by (cases "m s")
  show "ends_manual n k s' \<or> submit_clicked n s'"
  proof (cases r1)
    case (Inr b)
    with run m have "m s = (Inr a, s')" by (simp add: try_except_def)
    from tail_Inr [OF assms(1) r this] show ?thesis .
  next
    case (Inl e)
    with m tail_Inl [OF assms(1) r] have r1: "reached n k s1" by blast
    from run m Inl have "h e s1 = (Inr a, s')" by (simp add: try_except_def)
    from tail_Inr [OF assms(2) r1 this] show ?thesis .
  qed
next
  fix s e s'
  assume r: "reached n k s" and run: "try_except m h s = (Inl e, s')"
  obtain r1 s1 where m: "m s = (r1, s1)" by (cases "m s")
  from run m obtain e1 where e1: "r1 = Inl e1" "h e1 s1 = (Inl e, s')"
    by (cases r1) (auto simp: try_except_def)
  with m tail_Inl [OF assms(1) r] have r1: "reached n k s1" by blast
  from tail_Inl [OF assms(2) r1 e1(2)] show "reached n k s'" .
qed

lemma tail_manual:
  assumes "p \<in> set manual_prompts"
  shows "tail n k (seq (print p) (\<lambda>_. sleep 60))"
  using assms
  by (intro tailI) (auto simp: seq_def print_def sleep_def modify_def reached_def ends_manual_def)

lemma tail_if: "tail n k a \<Longrightarrow> tail n k b \<Longrightarrow> tail n k (if c then a else b)"
  by simp

lemma first_visible_member:
  "first_visible els s = (Inr (Some h), s') \<Longrightarrow> h \<in> set els"
proof (induction els arbitrary: s)
  case Nil
  then show ?case by (simp add: ret_def)
next
  case (Cons el els)
  obtain r1 s1 where v: "is_visible el s = (r1, s1)" by (cases "is_visible el s")
  with Cons.prems obtain b where b: "r1 = Inr b" by (cases r1) (auto simp: seq_def)
  show ?case
  proof (cases b)
    case True
    with Cons.prems v b show ?thesis by (simp add: seq_def ret_def)
  next
    case False
    with Cons.prems v b have "first_visible els s1 = (Inr (Some h), s')" by (simp add: seq_def)
    from Cons.IH [OF this] show ?thesis by simp
  qed
qed

lemma query_selector_all_selector:
  "query_selector_all sel s = (Inr els, s') \<Longrightarrow> h \<in> set els \<Longrightarrow> selector_of h = sel"
  by (auto simp: query_selector_all_def seq_def gets_def browser_call_def
      split: list.splits option.splits)

lemma find_visible_element_selector:
  "find_visible_element sels s = (Inr (Some h), s') \<Longrightarrow> selector_of h \<in> set sels"
proof (induction sels arbitrary: s)
  case Nil
  then show ?case by (simp add: ret_def)
next
  case (Cons sel sels)
  obtain r1 s1 where q: "query_selector_all sel s = (r1, s1)" by (cases "query_selector_all sel s")
  with Cons.prems obtain els where els: "r1 = Inr els" by (cases r1) (auto simp: seq_def)
  obtain r2 s2 where f: "first_visible els s1 = (r2, s2)" by (cases "first_visible els s1")
  with Cons.prems q els obtain found where found: "r2 = Inr found"
    by (cases r2) (auto simp: seq_def)
  show ?case
  proof (cases found)
    case None
    with Cons.prems q els f found have "find_visible_element sels s2 = (Inr (Some h), s')"
      by (simp add: seq_def)
    from Cons.IH [OF this] show ?thesis by simp
  next
    case (Some el)
    with Cons.prems q els f found have "el = h" by (simp add: seq_def ret_def)
    with f found Some have "first_visible els s1 = (Inr (Some h), s2)" by simp
    from first_visible_member [OF this] query_selector_all_selector [of sel s els s1 h] q els
    show ?thesis by simp
  qed
qed

lemma tail_find:
  assumes "\<And>h. selector_of h \<in> set sels \<Longrightarrow> tail n k (f (Some h))" and "tail n k (f None)"
  shows "tail n k (seq (find_visible_element sels) f)"
proof (rule tailI)
  fix s a s'
  assume r: "reached n k s" and run: "seq (find_visible_element sels) f s = (Inr a, s')"
  obtain r1 s1 where m: "find_visible_element sels s = (r1, s1)"
    by (cases "find_visible_element sels s")
  from reached_grows [OF r growingD [OF growing_find_visible_element m]] have r1: "reached n k s1" .
  from run m obtain b where b: "r1 = Inr b" "f b s1 = (Inr a, s')"
    by (cases r1) (auto simp: seq_def)
  have "tail n k (f b)"
  proof (cases b)
    case None
    with assms(2) show ?thesis by simp
  next
    case (Some h)
    with m b find_visible_element_selector [of sels s h s1] assms(1) show ?thesis by simp
  qed
  from tail_Inr [OF this r1 b(2)] show "ends_manual n k s' \<or> submit_clicked n s'" .
next
  fix s e s'
  assume r: "reached n k s" and run: "seq (find_visible_element sels) f s = (Inl e, s')"
  obtain r1 s1 where m: "find_visible_element sels s = (r1, s1)"
    by (cases "find_visible_element sels s")
  from reached_grows [OF r growingD [OF growing_find_visible_element m]] have r1: "reached n k s1" .
  show "reached n k s'"
  proof (cases r1)
    case (Inl e1)
    with run m r1 show ?thesis by (simp add: seq_def)
  next
    case (Inr b)
    with run m have fb: "f b s1 = (Inl e, s')" by (simp add: seq_def)
    have "tail n k (f b)"
    proof (cases b)
      case None
      with assms(2) show ?thesis by simp
    next
      case (Some h)
      with m Inr find_visible_element_selector [of sels s h s1] assms(1) show ?thesis by simp
    qed
    from tail_Inl [OF this r1 fb] show ?thesis .
  qed
qed

lemma tail_submit:
  assumes "selector_of button \<in> set submit_selectors"
  shows "tail n k (seq (click button) (\<lambda>_. after_submit u))"
proof (rule tailI)
  fix s a s'
  assume r: "reached n k s" and run: "seq (click button) (\<lambda>_. after_submit u) s = (Inr a, s')"
  obtain r1 s1 where m: "click button s = (r1, s1)" by (cases "click button s")
  then have "calls s1 = calls s @ [Click button]"
    by (auto simp: click_def seq_def browser_call_def modify_def load_next_def
        split: list.splits option.splits)
  with r assms have c1: "submit_clicked n s1"
    by (auto simp: submit_clicked_def reached_def)
  from run m have "after_submit u s1 = (Inr a, s')" by (cases r1) (auto simp: seq_def)
  from submit_clicked_grows [OF c1 growingD [OF growing_after_submit this]]
  show "ends_manual n k s' \<or> submit_clicked n s'" ..
next
  fix s e s'
  assume r: "reached n k s" and run: "seq (click button) (\<lambda>_. after_submit u) s = (Inl e, s')"
  have "growing (seq (click button) (\<lambda>_. after_submit u))"
    by (intro growing_intros growing_after_submit)
  from reached_grows [OF r growingD [OF this run]] show "reached n k s'" .
qed

lemma tail_log_manual:
  assumes "p \<in> set manual_prompts"
  shows "tail n k (seq (log_message m) (\<lambda>_. seq (print p) (\<lambda>_. sleep 60)))"
  by (rule tail_seq, rule growing_log_message, rule tail_manual, rule assms)

lemma tail_submit_step: "tail n k submit_step"
  unfolding submit_step_def
proof (rule tail_find, goal_cases)
  case (1 h)
  then show ?case by (simp, intro tail_submit tail_seq growing_intros)
next
  case 2
  show ?case by (simp, rule tail_log_manual, simp add: manual_prompts_def)
qed

lemma tail_password_step: "tail n k (password_step cfg)"
  unfolding password_step_def
proof (rule tail_find, goal_cases)
  case (1 h)
  show ?case by (simp, intro tail_submit_step tail_seq growing_intros)
next
  case 2
  show ?case by (simp, rule tail_log_manual, simp add: manual_prompts_def)
qed

lemma tail_username_form: 
  "tail n k (seq (find_visible_element username_selectors) (\<lambda>username_field.
     case username_field of
       Some field \<Rightarrow>
         seq (log_message ''Found visible username field'') (\<lambda>_.
         seq (click field) (\<lambda>_.
         seq (fill field []) (\<lambda>_.
         seq (fill field (COGNITO_USERNAME cfg)) (\<lambda>_.
         seq (log_message ''Filled username field'') (\<lambda>_.
         seq (sleep 1) (\<lambda>_.
         password_step cfg))))))
     | None \<Rightarrow>
         seq (log_message ''Could not find visible username field'') (\<lambda>_.
         seq (print ''Could not find username field. Please login manually within 60 seconds.'') (\<lambda>_.
         sleep 60))))"
proof (rule tail_find, goal_cases)
  case (1 h)
  show ?case by (simp, intro tail_password_step tail_seq growing_intros)
next
  case 2
  show ?case by (simp, rule tail_log_manual, simp add: manual_prompts_def)
qed

lemma tail_username_step: "tail n k (username_step cfg)"
  unfolding username_step_def
  by (intro tail_username_form tail_seq growing_intros)

lemma tail_handle_cognito_login: "tail n k (handle_cognito_login cfg)"
  unfolding handle_cognito_login_def
  by (intro tail_log_manual tail_try tail_if tail_username_step tail_seq growing_intros;
      simp add: manual_prompts_def)

lemma try_except_total:
  assumes "\<And>e t. fst (h e t) = Inr ()"
  shows "fst (try_except m h s) = Inr ()"
proof -
  obtain r s1 where m: "m s = (r, s1)" by (cases "m s")
  show ?thesis
  proof (cases r)
    case (Inl e)
    with m assms [of e s1] show ?thesis by (simp add: try_except_def)
  next
    case (Inr a)
    with m show ?thesis by (simp add: try_except_def)
  qed
qed

lemma handle_cognito_login_returns: "fst (handle_cognito_login cfg s) = Inr ()"
  unfolding handle_cognito_login_def
  by (rule try_except_total) (simp add: seq_def log_message_run print_def sleep_def modify_def)

lemma calm_tail_seq:
  assumes "calm_step p m" and "\<And>a. calm_tail p prompt (f a)"
  shows "calm_tail p prompt (seq m f)"
  unfolding calm_tail_def
proof (intro allI impI)
  fix s assume "calm p s"
  with assms(1) obtain a s1 where m: "m s = (Inr a, s1)" "calm p s1"
    by (auto simp: calm_step_def)
  from assms(2) [of a] m(2) obtain s' where "f a s1 = (Inr (), s')" "console s' \<noteq> []"
    "last (console s') = prompt" "calls s' \<noteq> []" "last (calls s') = Sleep 60"
    by (auto simp: calm_tail_def)
  with m(1) show "\<exists>s'. seq m f s = (Inr (), s') \<and> console s' \<noteq> [] \<and> last (console s') = prompt \<and>
              calls s' \<noteq> [] \<and> last (calls s') = Sleep 60"
    by (simp add: seq_def)
qed

lemma calm_tail_try: "calm_tail p prompt m \<Longrightarrow> calm_tail p prompt (try_except m h)"
  unfolding calm_tail_def
proof (intro allI impI)
  fix s assume a: "\<forall>s. calm p s \<longrightarrow>
        (\<exists>s'. m s = (Inr (), s') \<and> console s' \<noteq> [] \<and> last (console s') = prompt \<and>
              calls s' \<noteq> [] \<and> last (calls s') = Sleep 60)" and c: "calm p s"
  then obtain s' where "m s = (Inr (), s')" "console s' \<noteq> []"
    "last (console s') = prompt" "calls s' \<noteq> []" "last (calls s') = Sleep 60"
    by blast
  then show "\<exists>s'. try_except m h s = (Inr (), s') \<and> console s' \<noteq> [] \<and> last (console s') = prompt \<and>
              calls s' \<noteq> [] \<and> last (calls s') = Sleep 60"
    by (simp add: try_except_def)
qed

lemma calm_tail_manual: "calm_tail p prompt (seq (print prompt) (\<lambda>_. sleep 60))"
  by (simp add: calm_tail_def seq_def print_def sleep_def modify_def)

lemma calm_tail_log_manual:
  "calm_tail p prompt (seq (log_message m) (\<lambda>_. seq (print prompt) (\<lambda>_. sleep 60)))"
  by (simp add: calm_tail_def seq_def print_def sleep_def modify_def log_message_run)

lemma calm_log_message: "calm_step p (log_message m)"
  by (simp add: calm_step_def calm_def log_message_run logged_frame)

lemma calm_browser_call: "calm_step p (browser_call c)"
  by (simp add: calm_step_def calm_def browser_call_def)

lemma calm_prims:
  "calm_step p (wait_for_load_state st t)" "calm_step p (sleep d)" "calm_step p (click h)"
  "calm_step p (fill h txt)" "calm_step p page_url" "calm_step p (query_selector_all sel)"
  by (simp_all add: calm_step_def calm_def wait_for_load_state_def sleep_def click_def fill_def
      page_url_def query_selector_all_def browser_call_def seq_def modify_def gets_def load_next_def)

lemma calm_tail_is_closed:
  assumes "calm_tail p prompt (f False)"
  shows "calm_tail p prompt (seq is_closed f)"
  using assms by (simp add: calm_tail_def calm_def seq_def is_closed_def gets_def)

lemma first_visible_calm:
  assumes "calm p s" and "\<forall>h \<in> set hs. on_page p h"
  shows "\<exists>s'. calm p s' \<and>
     first_visible hs s
       = (Inr (find (\<lambda>h. case h of Handle sel i \<Rightarrow> visible (elements p sel ! i)) hs), s')"
  using assms
proof (induction hs arbitrary: s)
  case Nil
  then show ?case by (simp add: ret_def)
next
  case (Cons h hs)
  obtain sel i where h: "h = Handle sel i" by (cases h)
  let ?s1 = "s\<lparr>calls := calls s @ [IsVisible h]\<rparr>"
  from Cons.prems h have v: "is_visible h s = (Inr (visible (elements p sel ! i)), ?s1)"
    by (simp add: is_visible_def seq_def browser_call_def resolve_def ret_def calm_def)
  from Cons.prems have c1: "calm p ?s1" by (simp add: calm_def)
  show ?case
  proof (cases "visible (elements p sel ! i)")
    case True
    with v h c1 show ?thesis by (auto simp: seq_def ret_def)
  next
    case False
    from Cons.IH [OF c1] Cons.prems(2) obtain s' where "calm p s'"
      "first_visible hs ?s1
       = (Inr (find (\<lambda>h. case h of Handle sel i \<Rightarrow> visible (elements p sel ! i)) hs), s')"
      by auto
    with v h False show ?thesis by (auto simp: seq_def)
  qed
qed

lemma find_handles_None:
  "find (\<lambda>h. case h of Handle sel i \<Rightarrow> visible (elements p sel ! i))
      (map (Handle sel) [0 ..< length (elements p sel)]) = None
   \<longleftrightarrow> \<not> list_ex visible (elements p sel)"
proof -
  let ?vis = "\<lambda>h. case h of Handle sel i \<Rightarrow> visible (elements p sel ! i)"
  let ?hs = "map (Handle sel) [0 ..< length (elements p sel)]"
  have a: "(\<exists>h \<in> set ?hs. ?vis h) \<longleftrightarrow> (\<exists>i < length (elements p sel). visible (elements p sel ! i))"
    by auto
  have b: "(\<exists>i < length (elements p sel). visible (elements p sel ! i))
      \<longleftrightarrow> (\<exists>e \<in> set (elements p sel). visible e)"
    by (metis in_set_conv_nth)
  have "find ?vis ?hs = None \<longleftrightarrow> \<not> (\<exists>h \<in> set ?hs. ?vis h)"
    by (simp only: find_None_iff Bex_def)
  with a b show ?thesis by (simp only: list_ex_iff)
qed

lemma find_visible_calm:
  assumes "calm p s"
  shows "\<exists>r s'. find_visible_element sels s = (Inr r, s') \<and> calm p s' \<and>
     (r = None \<longleftrightarrow> \<not> visible_on p sels)"
  using assms
proof (induction sels arbitrary: s)
  case Nil
  then show ?case by (simp add: ret_def visible_on_def)
next
  case (Cons sel sels)
  let ?s1 = "s\<lparr>calls := calls s @ [QuerySelectorAll sel]\<rparr>"
  let ?hs = "map (Handle sel) [0 ..< length (elements p sel)]"
  let ?vis = "\<lambda>h. case h of Handle sel i \<Rightarrow> visible (elements p sel ! i)"
  from Cons.prems have q: "query_selector_all sel s = (Inr ?hs, ?s1)"
    by (simp add: query_selector_all_def seq_def browser_call_def gets_def calm_def)
  from Cons.prems have c1: "calm p ?s1" by (simp add: calm_def)
  have "\<forall>h \<in> set ?hs. on_page p h" by auto
  from first_visible_calm [OF c1 this] obtain s2 where s2: "calm p s2"
    "first_visible ?hs ?s1 = (Inr (find ?vis ?hs), s2)" by blast
  show ?case
  proof (cases "find ?vis ?hs")
    case None
    with find_handles_None [of p sel] have nv: "\<not> list_ex visible (elements p sel)" by simp
    from Cons.IH [OF s2(1)] obtain r s' where r:
      "find_visible_element sels s2 = (Inr r, s')" "calm p s'" "r = None \<longleftrightarrow> \<not> visible_on p sels"
      by blast
    from q s2(2) None r(1) have "find_visible_element (sel # sels) s = (Inr r, s')"
      by (simp add: seq_def)
    moreover from nv r(3) have "r = None \<longleftrightarrow> \<not> visible_on p (sel # sels)"
      by (simp add: visible_on_def)
    ultimately show ?thesis using r(2) by blast
  next
    case (Some h)
    with find_handles_None [of p sel] have "list_ex visible (elements p sel)" by simp
    then have v: "visible_on p (sel # sels)" by (simp add: visible_on_def)
    from q s2(2) Some have "find_visible_element (sel # sels) s = (Inr (Some h), s2)"
      by (simp add: seq_def ret_def)
    with v s2(1) show ?thesis by blast
  qed
qed

lemma calm_tail_find_none:
  assumes "\<not> visible_on p sels" and "calm_tail p prompt (f None)"
  shows "calm_tail p prompt (seq (find_visible_element sels) f)"
  unfolding calm_tail_def
proof (intro allI impI)
  fix s assume "calm p s"
  from find_visible_calm [OF this, of sels] assms(1) obtain s1 where
    m: "find_visible_element sels s = (Inr None, s1)" "calm p s1" by auto
  from assms(2) m(2) obtain s' where "f None s1 = (Inr (), s')" "console s' \<noteq> []"
    "last (console s') = prompt" "calls s' \<noteq> []" "last (calls s') = Sleep 60"
    by (auto simp: calm_tail_def)
  with m(1) show "\<exists>s'. seq (find_visible_element sels) f s = (Inr (), s') \<and> console s' \<noteq> [] \<and>
      last (console s') = prompt \<and> calls s' \<noteq> [] \<and> last (calls s') = Sleep 60"
    by (simp add: seq_def)
qed

lemma calm_tail_find_some:
  assumes "visible_on p sels" and "\<And>h. calm_tail p prompt (f (Some h))"
  shows "calm_tail p prompt (seq (find_visible_element sels) f)"
  unfolding calm_tail_def
proof (intro allI impI)
  fix s assume "calm p s"
  from find_visible_calm [OF this, of sels] assms(1) obtain h s1 where
    m: "find_visible_element sels s = (Inr (Some h), s1)" "calm p s1" by auto
  from assms(2) [of h] m(2) obtain s' where "f (Some h) s1 = (Inr (), s')" "console s' \<noteq> []"
    "last (console s') = prompt" "calls s' \<noteq> []" "last (calls s') = Sleep 60"
    by (auto simp: calm_tail_def)
  with m(1) show "\<exists>s'. seq (find_visible_element sels) f s = (Inr (), s') \<and> console s' \<noteq> [] \<and>
      last (console s') = prompt \<and> calls s' \<noteq> [] \<and> last (calls s') = Sleep 60"
    by (simp add: seq_def)
qed

lemmas calm_steps = calm_log_message calm_prims

lemma calm_submit_missing:
  assumes "\<not> visible_on p submit_selectors"
  shows "calm_tail p ''Could not find submit button. Please login manually within 60 seconds.'' submit_step"
  unfolding submit_step_def
  by (rule calm_tail_find_none [OF assms]) (simp add: calm_tail_log_manual)

lemma calm_password_missing:
  assumes "\<not> visible_on p password_selectors"
  shows "calm_tail p ''Could not find password field. Please login manually within 60 seconds.''
    (password_step cfg)"
  unfolding password_step_def
  by (rule calm_tail_find_none [OF assms]) (simp add: calm_tail_log_manual)

lemma calm_password_found:
  assumes "visible_on p password_selectors" and "calm_tail p prompt submit_step"
  shows "calm_tail p prompt (password_step cfg)"
  unfolding password_step_def
  by (rule calm_tail_find_some [OF assms(1)]) (simp, intro calm_tail_seq calm_steps assms(2))

lemma calm_username_missing:
  assumes "\<not> visible_on p username_selectors"
  shows "calm_tail p ''Could not find username field. Please login manually within 60 seconds.''
    (username_step cfg)"
  unfolding username_step_def
  by (intro calm_tail_find_none [OF assms] calm_tail_seq calm_steps)
    (simp add: calm_tail_log_manual)

lemma calm_username_found:
  assumes "visible_on p username_selectors" and "calm_tail p prompt (password_step cfg)"
  shows "calm_tail p prompt (username_step cfg)"
  unfolding username_step_def
  by (intro calm_tail_find_some [OF assms(1)] calm_tail_seq calm_steps)
    (simp, intro calm_tail_seq calm_steps assms(2))

lemma calm_login:
  assumes "COGNITO_USERNAME cfg \<noteq> []" "COGNITO_PASSWORD cfg \<noteq> []"
    and "calm_tail p prompt (username_step cfg)"
  shows "calm_tail p prompt (handle_cognito_login cfg)"
  unfolding handle_cognito_login_def using assms(1,2)
  by (simp, intro calm_tail_try calm_tail_is_closed calm_tail_seq calm_steps, simp,
      intro calm_tail_try assms(3))

lemma login_no_credentials:
  assumes "COGNITO_USERNAME cfg = [] \<or> COGNITO_PASSWORD cfg = []" and "faults s = []"
  shows "last (console (snd (handle_cognito_login cfg s)))
        = ''Please login manually (no credentials found). Waiting 60 seconds.'' \<and>
     last (calls (snd (handle_cognito_login cfg s))) = Sleep 60"
  using assms
  by (auto simp: handle_cognito_login_def try_except_def seq_def wait_for_load_state_def
      browser_call_def page_url_def gets_def log_message_run print_def sleep_def modify_def)

lemma login_page_closed:
  assumes "COGNITO_USERNAME cfg \<noteq> []" "COGNITO_PASSWORD cfg \<noteq> []" and "faults s = []"
    and "page_closed s"
  shows "last (console (snd (handle_cognito_login cfg s)))
        = ''Login page closed. Please login manually within 60 seconds.'' \<and>
     last (calls (snd (handle_cognito_login cfg s))) = Sleep 60"
  using assms
  by (simp add: handle_cognito_login_def try_except_def seq_def wait_for_load_state_def
      browser_call_def page_url_def is_closed_def gets_def log_message_run logged_frame
      print_def sleep_def modify_def)

lemma calm_tailD:
  assumes "calm_tail p prompt m" and "calm p s"
  shows "last (console (snd (m s))) = prompt \<and> last (calls (snd (m s))) = Sleep 60"
  using assms by (auto simp: calm_tail_def)

lemma login_missing_element:
  assumes "COGNITO_USERNAME cfg \<noteq> []" "COGNITO_PASSWORD cfg \<noteq> []"
    and "faults s = []" "upcoming s = []" "\<not> page_closed s"
  shows "(\<not> visible_on (current s) username_selectors \<longrightarrow>
       last (console (snd (handle_cognito_login cfg s)))
         = ''Could not find username field. Please login manually within 60 seconds.'' \<and>
       last (calls (snd (handle_cognito_login cfg s))) = Sleep 60) \<and>
     (visible_on (current s) username_selectors \<and> \<not> visible_on (current s) password_selectors \<longrightarrow>
       last (console (snd (handle_cognito_login cfg s)))
         = ''Could not find password field. Please login manually within 60 seconds.'' \<and>
       last (calls (snd (handle_cognito_login cfg s))) = Sleep 60) \<and>
     (visible_on (current s) username_selectors \<and> visible_on (current s) password_selectors \<and>
      \<not> visible_on (current s) submit_selectors \<longrightarrow>
       last (console (snd (handle_cognito_login cfg s)))
         = ''Could not find submit button. Please login manually within 60 seconds.'' \<and>
       last (calls (snd (handle_cognito_login cfg s))) = Sleep 60)"
proof -
  from assms(3-5) have c: "calm (current s) s" by (simp add: calm_def)
  note login = calm_login [OF assms(1,2)]
  show ?thesis
  proof (intro conjI impI)
    assume "\<not> visible_on (current s) username_selectors"
    from calm_tailD [OF login [OF calm_username_missing [OF this]] c]
    show "last (console (snd (handle_cognito_login cfg s)))
         = ''Could not find username field. Please login manually within 60 seconds.''"
      and "last (calls (snd (handle_cognito_login cfg s))) = Sleep 60" by simp_all
  next
    assume a: "visible_on (current s) username_selectors \<and> \<not> visible_on (current s) password_selectors"
    then have u: "visible_on (current s) username_selectors"
      and p: "\<not> visible_on (current s) password_selectors" by simp_all
    from calm_tailD [OF login [OF calm_username_found [OF u calm_password_missing [OF p]]] c]
    show "last (console (snd (handle_cognito_login cfg s)))
         = ''Could not find password field. Please login manually within 60 seconds.''"
      and "last (calls (snd (handle_cognito_login cfg s))) = Sleep 60" by simp_all
  next
    assume a: "visible_on (current s) username_selectors \<and> visible_on (current s) password_selectors \<and>
      \<not> visible_on (current s) submit_selectors"
    then have u: "visible_on (current s) username_selectors"
      and p: "visible_on (current s) password_selectors"
      and b: "\<not> visible_on (current s) submit_selectors" by simp_all
    from calm_tailD [OF login [OF calm_username_found [OF u
        calm_password_found [OF p calm_submit_missing [OF b]]]] c]
    show "last (console (snd (handle_cognito_login cfg s)))
         = ''Could not find submit button. Please login manually within 60 seconds.''"
      and "last (calls (snd (handle_cognito_login cfg s))) = Sleep 60" by simp_all
  qed
qed

text \<open>
  C7, as the code has it. \<^verbatim>\<open>handle_cognito_login\<close> never raises. Unless it has clicked a
  submit button that it found visible, it ends by printing one of the prompts for a
  manual login and, as its last call, sleeping 60 seconds; this is so whatever the page
  shows and whichever browser calls raise. In particular, when no call raises: without
  credentials, on a closed page, and on a page that stays and shows no username field, or
  no password field, or no submit button, the login ends with the prompt of that case and
  the sleep. (After the click on the submit button no prompt is promised: see the
  counterexample below.)
\<close>

theorem handle_cognito_login_manual:
  "fst (handle_cognito_login cfg s) = Inr () \<and>
   ((length (console s) < length (console (snd (handle_cognito_login cfg s))) \<and>
     last (console (snd (handle_cognito_login cfg s))) \<in> set manual_prompts \<and>
     length (calls s) < length (calls (snd (handle_cognito_login cfg s))) \<and>
     last (calls (snd (handle_cognito_login cfg s))) = Sleep 60) \<or>
    (\<exists>h. selector_of h \<in> set submit_selectors \<and>
       Click h \<in> set (drop (length (calls s)) (calls (snd (handle_cognito_login cfg s)))))) \<and>
   ((COGNITO_USERNAME cfg = [] \<or> COGNITO_PASSWORD cfg = []) \<and> faults s = [] \<longrightarrow>
      last (console (snd (handle_cognito_login cfg s)))
        = ''Please login manually (no credentials found). Waiting 60 seconds.'' \<and>
      last (calls (snd (handle_cognito_login cfg s))) = Sleep 60) \<and>
   (COGNITO_USERNAME cfg \<noteq> [] \<and> COGNITO_PASSWORD cfg \<noteq> [] \<and> faults s = [] \<and> page_closed s \<longrightarrow>
      last (console (snd (handle_cognito_login cfg s)))
        = ''Login page closed. Please login manually within 60 seconds.'' \<and>
      last (calls (snd (handle_cognito_login cfg s))) = Sleep 60) \<and>
   (COGNITO_USERNAME cfg \<noteq> [] \<and> COGNITO_PASSWORD cfg \<noteq> [] \<and> faults s = [] \<and>
    upcoming s = [] \<and> \<not> page_closed s \<longrightarrow>
      (\<not> visible_on (current s) username_selectors \<longrightarrow>
         last (console (snd (handle_cognito_login cfg s)))
           = ''Could not find username field. Please login manually within 60 seconds.'' \<and>
         last (calls (snd (handle_cognito_login cfg s))) = Sleep 60) \<and>
      (visible_on (current s) username_selectors \<and>
       \<not> visible_on (current s) password_selectors \<longrightarrow>
         last (console (snd (handle_cognito_login cfg s)))
           = ''Could not find password field. Please login manually within 60 seconds.'' \<and>
         last (calls (snd (handle_cognito_login cfg s))) = Sleep 60) \<and>
      (visible_on (current s) username_selectors \<and> visible_on (current s) password_selectors \<and>
       \<not> visible_on (current s) submit_selectors \<longrightarrow>
         last (console (snd (handle_cognito_login cfg s)))
           = ''Could not find submit button. Please login manually within 60 seconds.'' \<and>
         last (calls (snd (handle_cognito_login cfg s))) = Sleep 60))"
proof -
  obtain r s' where run: "handle_cognito_login cfg s = (r, s')"
    by (cases "handle_cognito_login cfg s")
  with handle_cognito_login_returns [of cfg s] have r: "r = Inr ()" by simp
  have "reached (length (calls s)) (length (console s)) s" by (simp add: reached_def)
  from tail_Inr [OF tail_handle_cognito_login this run [unfolded r]]
  have general: "fst (handle_cognito_login cfg s) = Inr () \<and>
   ((length (console s) < length (console (snd (handle_cognito_login cfg s))) \<and>
     last (console (snd (handle_cognito_login cfg s))) \<in> set manual_prompts \<and>
     length (calls s) < length (calls (snd (handle_cognito_login cfg s))) \<and>
     last (calls (snd (handle_cognito_login cfg s))) = Sleep 60) \<or>
    (\<exists>h. selector_of h \<in> set submit_selectors \<and>
       Click h \<in> set (drop (length (calls s)) (calls (snd (handle_cognito_login cfg s))))))"
    using run r by (auto simp: ends_manual_def submit_clicked_def)
  from general login_no_credentials [of cfg s] login_page_closed [of cfg s]
    login_missing_element [of cfg s]
  show ?thesis by blast
qed

text \<open>
  On a page without any form the script asks for a manual login and sleeps; so it does
  without a password, on a closed page, and on forms that lack the password field or the
  submit button.
\<close>

lemmas login_defs = handle_cognito_login_def username_step_def password_step_def submit_step_def
  after_submit_def username_selectors_def password_selectors_def submit_selectors_def

theorem handle_cognito_login_manual_witness:
  "fst (handle_cognito_login sample_config world0) = Inr () \<and>
   snd (handle_cognito_login sample_config world0)
     = world0\<lparr>now := 61,
         calls := [WaitForLoadState ''domcontentloaded'' (Some 30000), Sleep 1,
                   QuerySelectorAll (username_selectors ! 0),
                   QuerySelectorAll (username_selectors ! 1), Sleep 60],
         log_file := [''[T] Login page loaded, URL: https://example.com/'',
                      ''[T] Attempting automatic login with stored credentials'',
                      ''[T] Looking for NASA Cognito-specific login elements...'',
                      ''[T] Checking for visible form elements (page has duplicate IDs)'',
                      ''[T] Could not find visible username field''],
         console := [''Could not find username field. Please login manually within 60 seconds.'']\<rparr> \<and>
   last (console (snd (handle_cognito_login (sample_config\<lparr>COGNITO_PASSWORD := []\<rparr>) world0)))
     = ''Please login manually (no credentials found). Waiting 60 seconds.'' \<and>
   last (console (snd (handle_cognito_login sample_config (world0\<lparr>page_closed := True\<rparr>))))
     = ''Login page closed. Please login manually within 60 seconds.'' \<and>
   visible_on (form_page True False True) username_selectors \<and>
   \<not> visible_on (form_page True False True) password_selectors \<and>
   last (console (snd (handle_cognito_login sample_config
       (world0\<lparr>current := form_page True False True\<rparr>))))
     = ''Could not find password field. Please login manually within 60 seconds.'' \<and>
   visible_on (form_page True True False) password_selectors \<and>
   \<not> visible_on (form_page True True False) submit_selectors \<and>
   last (console (snd (handle_cognito_login sample_config
       (world0\<lparr>current := form_page True True False\<rparr>))))
     = ''Could not find submit button. Please login manually within 60 seconds.''"
proof -
  have e: "snd (handle_cognito_login sample_config world0)
     = world0\<lparr>now := 61,
         calls := [WaitForLoadState ''domcontentloaded'' (Some 30000), Sleep 1,
                   QuerySelectorAll (username_selectors ! 0),
                   QuerySelectorAll (username_selectors ! 1), Sleep 60],
         log_file := [''[T] Login page loaded, URL: https://example.com/'',
                      ''[T] Attempting automatic login with stored credentials'',
                      ''[T] Looking for NASA Cognito-specific login elements...'',
                      ''[T] Checking for visible form elements (page has duplicate IDs)'',
                      ''[T] Could not find visible username field''],
         console := [''Could not find username field. Please login manually within 60 seconds.'']\<rparr>"
    by (simp add: login_defs eval_defs)
  have c: "COGNITO_USERNAME sample_config \<noteq> []" "COGNITO_PASSWORD sample_config \<noteq> []"
    "COGNITO_PASSWORD (sample_config\<lparr>COGNITO_PASSWORD := []\<rparr>) = []"
    by (simp_all add: sample_config_def)
  have w: "faults world0 = []" "upcoming world0 = []" "\<not> page_closed world0"
    by (simp_all add: world0_def)
  have v: "visible_on (form_page True False True) username_selectors"
    "\<not> visible_on (form_page True False True) password_selectors"
    "visible_on (form_page True True False) username_selectors"
    "visible_on (form_page True True False) password_selectors"
    "\<not> visible_on (form_page True True False) submit_selectors"
    by (simp_all add: visible_on_def form_page_def form_field_def username_selectors_def
        password_selectors_def submit_selectors_def)
  from handle_cognito_login_manual [of sample_config world0]
    handle_cognito_login_manual [of "sample_config\<lparr>COGNITO_PASSWORD := []\<rparr>" world0]
    handle_cognito_login_manual [of sample_config "world0\<lparr>page_closed := True\<rparr>"]
    handle_cognito_login_manual [of sample_config "world0\<lparr>current := form_page True False True\<rparr>"]
    handle_cognito_login_manual [of sample_config "world0\<lparr>current := form_page True True False\<rparr>"]
  show ?thesis
    unfolding e using c w v by simp
qed

text \<open>
  C7 as stated fails: on the sample login page both waits after the click on the submit
  button raise; the exceptions are logged, and the login ends without any prompt on the
  console and without a sleep of 60 seconds.
\<close>

theorem handle_cognito_login_timeout_no_prompt:
  "handle_cognito_login sample_config login_world
     = (Inr (),
        login_world\<lparr>faults := [], now := 3,
          calls := [WaitForLoadState ''domcontentloaded'' (Some 30000), Sleep 1,
                    QuerySelectorAll (hd username_selectors),
                    IsVisible (Handle (hd username_selectors) 0),
                    IsVisible (Handle (hd username_selectors) 1),
                    Click (Handle (hd username_selectors) 1),
                    Fill (Handle (hd username_selectors) 1) [],
                    Fill (Handle (hd username_selectors) 1) ''user'', Sleep 1,
                    QuerySelectorAll (hd password_selectors),
                    IsVisible (Handle (hd password_selectors) 0),
                    IsVisible (Handle (hd password_selectors) 1),
                    Click (Handle (hd password_selectors) 1),
                    Fill (Handle (hd password_selectors) 1) [],
                    Fill (Handle (hd password_selectors) 1) ''secret'', Sleep 1,
                    QuerySelectorAll (hd submit_selectors),
                    IsVisible (Handle (hd submit_selectors) 0),
                    IsVisible (Handle (hd submit_selectors) 1),
                    Click (Handle (hd submit_selectors) 1),
                    WaitForFunction 10000,
                    WaitForLoadState ''domcontentloaded'' (Some 15000)],
          log_file := [''[T] Login page loaded, URL: https://auth.example.amazoncognito.com/login'',
                       ''[T] Attempting automatic login with stored credentials'',
                       ''[T] Looking for NASA Cognito-specific login elements...'',
                       ''[T] Checking for visible form elements (page has duplicate IDs)'',
                       ''[T] Found visible username field'', ''[T] Filled username field'',
                       ''[T] Found visible password field'', ''[T] Filled password field'',
                       ''[T] Found submit button with name: signInSubmitButton'',
                       ''[T] Clicking submit button'',
                       ''[T] Waiting for navigation after submit...'',
                       ''[T] Error waiting for URL change: Timeout 10000ms exceeded'',
                       ''[T] Load state timeout, but continuing: Timeout 15000ms exceeded'',
                       ''[T] Login process completed, current URL: https://auth.example.amazoncognito.com/login''],
          console := []\<rparr>)"
  by (simp add: login_defs login_world_def form_page_def form_field_def eval_defs)

section \<open>The action of a tick\<close>

lemma choose_action_cases:
  "(choose_action cfg t sc = ModifyCookies \<longleftrightarrow>
      t - last_cookie_mod_time sc \<ge> real_of_int (cookie_mod_interval cfg)) \<and>
   (choose_action cfg t sc = ReturnToStart \<longleftrightarrow>
      \<not> t - last_cookie_mod_time sc \<ge> real_of_int (cookie_mod_interval cfg) \<and>
      t - last_return_time sc \<ge> real_of_int (return_interval cfg)) \<and>
   (choose_action cfg t sc = Refresh \<longleftrightarrow>
      \<not> t - last_cookie_mod_time sc \<ge> real_of_int (cookie_mod_interval cfg) \<and>
      \<not> t - last_return_time sc \<ge> real_of_int (return_interval cfg) \<and>
      t - last_refresh_time sc \<ge> real_of_int (refresh_interval cfg)) \<and>
   (choose_action cfg t sc = ClickLink \<longleftrightarrow>
      \<not> t - last_cookie_mod_time sc \<ge> real_of_int (cookie_mod_interval cfg) \<and>
      \<not> t - last_return_time sc \<ge> real_of_int (return_interval cfg) \<and>
      \<not> t - last_refresh_time sc \<ge> real_of_int (refresh_interval cfg))"
  by (simp add: choose_action_def)

lemma perform_modify:
  assumes "choose_action cfg t sc = ModifyCookies"
  shows "fst (perform_action cfg t sc s) = Inr (sc\<lparr>last_cookie_mod_time := t\<rparr>)"
    "\<exists>rest. calls (snd (perform_action cfg t sc s)) = calls s @ ContextCookies # rest"
proof -
  let ?s1 = "logged (CHR 0x0A # ''Time to modify auth cookies'') s"
  let ?h = "\<lambda>e. log_message (''Error modifying auth cookies: '' @ exn_text e)"
  obtain r2 s2 where m: "try_except modify_auth_cookies ?h ?s1 = (r2, s2)"
    by (cases "try_except modify_auth_cookies ?h ?s1")
  have "fst (try_except modify_auth_cookies ?h ?s1) = Inr ()"
    by (rule try_except_total) (simp add: log_message_run)
  with m have r2: "r2 = Inr ()" by simp
  from assms m r2 have run: "perform_action cfg t sc s = (Inr (sc\<lparr>last_cookie_mod_time := t\<rparr>), s2)"
    by (simp add: perform_action_def seq_def log_message_run ret_def)
  then show "fst (perform_action cfg t sc s) = Inr (sc\<lparr>last_cookie_mod_time := t\<rparr>)" by simp
  obtain r3 s3 where c: "context_cookies ?s1 = (r3, s3)" by (cases "context_cookies ?s1")
  then have c3: "calls s3 = calls s @ [ContextCookies]"
    by (auto simp: context_cookies_def seq_def browser_call_def gets_def logged_frame
        split: list.splits option.splits)
  have "grows s3 s2"
  proof (cases r3)
    case (Inl e)
    with c m have "log_message (''Error modifying auth cookies: '' @ exn_text e) s3 = (r2, s2)"
      by (simp add: try_except_def modify_auth_cookies_def seq_def)
    from growingD [OF growing_log_message this] show ?thesis .
  next
    case (Inr all_cookies)
    define rest where "rest = 
       seq (log_message (CHR 0x0A # ''==== MODIFYING AUTH COOKIES ====''))  (\<lambda>_.
       seq (collect_modified all_cookies []) (\<lambda>modified_cookies.
       if modified_cookies \<noteq> [] then
         try_except
           (seq clear_cookies (\<lambda>_.
            seq (lift (cookie_names modified_cookies)) (\<lambda>cookie_names_to_modify.
            seq (lift (cookies_to_keep all_cookies cookie_names_to_modify)) (\<lambda>original_cookies_to_keep.
            seq (if original_cookies_to_keep \<noteq> [] then add_cookies original_cookies_to_keep
                 else ret ()) (\<lambda>_.
            seq (add_cookies modified_cookies) (\<lambda>_.
            seq (log_message (''Successfully modified '' @ str_nat (length modified_cookies)
                   @ '' auth cookies'')) (\<lambda>_.
            try_except
              (seq (log_message ''Reloading page to apply cookie changes'') (\<lambda>_.
               page_reload (Some 30000)))
              (\<lambda>reload_error.
                 log_message (''Error during reload after cookie modification: ''
                   @ exn_text reload_error)))))))))
           (\<lambda>e. log_message (''Error modifying auth cookies: '' @ exn_text e))
       else log_message ''No auth cookies found to modify''))"
    have g: "growing (try_except rest ?h)"
      unfolding rest_def by (intro growing_intros growing_collect_modified)
    from c Inr m have "try_except rest ?h s3 = (r2, s2)"
      by (simp add: try_except_def modify_auth_cookies_def seq_def rest_def)
    from growingD [OF g this] show ?thesis .
  qed
  then obtain ext where "calls s2 = calls s3 @ ext" by (auto simp: grows_def prefix_def)
  with c3 run show "\<exists>rest. calls (snd (perform_action cfg t sc s)) = calls s @ ContextCookies # rest"
    by simp
qed

lemma perform_return:
  assumes "choose_action cfg t sc = ReturnToStart"
  shows "fst (perform_action cfg t sc s) = Inr (sc\<lparr>last_return_time := t\<rparr>)"
    "calls (snd (perform_action cfg t sc s)) = calls s @ [Goto (start_url cfg)]"
  using assms
  by (auto simp: perform_action_def seq_def try_except_def log_message_run logged_frame ret_def
      page_goto_def browser_call_def modify_def arrive_def split: list.splits option.splits)

lemma perform_refresh:
  assumes "choose_action cfg t sc = Refresh"
  shows "fst (perform_action cfg t sc s) = Inr (sc\<lparr>last_refresh_time := t\<rparr>)"
    "calls (snd (perform_action cfg t sc s)) = calls s @ [Reload None]"
  using assms
  by (auto simp: perform_action_def seq_def try_except_def log_message_run logged_frame ret_def
      page_reload_def browser_call_def modify_def load_next_def split: list.splits option.splits)

lemma perform_click:
  assumes "choose_action cfg t sc = ClickLink"
  shows "perform_action cfg t sc s = seq (click_random_link cfg) (\<lambda>_. ret sc) s"
    "elements (current s) ''a'' = [] \<Longrightarrow> \<not> next_raises s \<Longrightarrow>
       perform_action cfg t sc s
         = (Inr sc, s\<lparr>calls := calls s @ [QuerySelectorAll ''a''], faults := tl (faults s)\<rparr>)"
proof -
  from assms show "perform_action cfg t sc s = seq (click_random_link cfg) (\<lambda>_. ret sc) s"
    by (simp add: perform_action_def)
  assume "elements (current s) ''a'' = []" "\<not> next_raises s"
  with assms show "perform_action cfg t sc s
         = (Inr sc, s\<lparr>calls := calls s @ [QuerySelectorAll ''a''], faults := tl (faults s)\<rparr>)"
    by (cases "faults s")
      (auto simp: perform_action_def click_random_link_def seq_def ret_def query_selector_all_def
        browser_call_def gets_def next_raises_def faults_tl_Nil split: option.splits)
qed

lemma seeds_tl_Nil: "seeds s = [] \<Longrightarrow> s\<lparr>seeds := []\<rparr> = s"
  by (cases s) simp

lemma get_attribute_quiet:
  assumes "faults s = []" and "on_page (current s) l"
  shows "get_attribute l ''href'' s
    = (Inr (href_on (current s) l), s\<lparr>calls := calls s @ [GetAttribute l ''href'']\<rparr>)"
  using assms
  by (cases l) (simp add: get_attribute_def seq_def browser_call_def resolve_def ret_def href_on_def)

lemma filter_links_quiet:
  assumes "faults s = []" and "\<forall>l \<in> set links. on_page (current s) l"
  shows "filter_links links acc s
    = (Inr (acc @ [(l, the (href_on (current s) l)). l \<leftarrow> links, link_kept (href_on (current s) l)]),
       s\<lparr>calls := calls s @ map (\<lambda>l. GetAttribute l ''href'') links\<rparr>)"
  using assms
proof (induction links arbitrary: acc s)
  case Nil
  then show ?case by (simp add: ret_def)
next
  case (Cons l links)
  let ?s1 = "s\<lparr>calls := calls s @ [GetAttribute l ''href'']\<rparr>"
  from Cons.prems have g: "get_attribute l ''href'' s = (Inr (href_on (current s) l), ?s1)"
    by (simp add: get_attribute_quiet)
  have s1: "faults ?s1 = []" "\<forall>l \<in> set links. on_page (current ?s1) l"
    using Cons.prems by simp_all
  show ?case
  proof (cases "link_kept (href_on (current s) l)")
    case True
    with g Cons.IH [OF s1, of "acc @ [(l, the (href_on (current s) l))]"] show ?thesis
      by (simp add: seq_def cong: if_cong)
  next
    case False
    with g Cons.IH [OF s1, of acc] show ?thesis
      by (simp add: seq_def cong: if_cong)
  qed
qed

lemma randint_quiet:
  assumes "a \<le> b"
  shows "\<exists>r. a \<le> r \<and> r \<le> b \<and> randint a b s = (Inr r, s\<lparr>seeds := tl (seeds s)\<rparr>)"
proof (cases "seeds s")
  case Nil
  with assms show ?thesis by (simp add: randint_def seeds_tl_Nil)
next
  case (Cons x xs)
  have "x mod nat (b - a + 1) < nat (b - a + 1)" using assms by simp
  then have "int (x mod nat (b - a + 1)) < b - a + 1" using assms by linarith
  with assms Cons show ?thesis by (simp add: randint_def)
qed

lemma click_link_quiet:
  assumes "faults s = []"
  shows "fst (click_link cfg link h s) = Inr ()"
    "calls (snd (click_link cfg link h s)) = calls s @ link_calls (link, h)"
  using assms
  by (auto simp: click_link_def link_calls_def try_except_def seq_def ret_def log_message_run
      logged_frame click_def wait_for_load_state_def browser_call_def modify_def load_next_def
      split: list.splits)

lemma anchors_on_page: "\<forall>l \<in> set (anchors_of p). on_page p l"
  by (auto simp: anchors_of_def)

lemma click_random_link_quiet:
  assumes "faults s = []"
  shows "fst (click_random_link cfg s) = Inr () \<and>
    (\<exists>clicks. calls (snd (click_random_link cfg s))
        = calls s @ QuerySelectorAll ''a'' # map (\<lambda>l. GetAttribute l ''href'') (anchors_of (current s)) @ clicks \<and>
      (if kept_links (current s) = [] then clicks = []
       else \<exists>r. 0 \<le> r \<and> r \<le> choice_bound (kept_links (current s)) \<and>
              clicks = link_calls (kept_links (current s) ! nat r)))"
proof -
  let ?p = "current s"
  let ?s1 = "s\<lparr>calls := calls s @ [QuerySelectorAll ''a'']\<rparr>"
  let ?s2 = "s\<lparr>calls := calls s @ QuerySelectorAll ''a'' # map (\<lambda>l. GetAttribute l ''href'') (anchors_of ?p)\<rparr>"
  have q: "query_selector_all ''a'' s = (Inr (anchors_of ?p), ?s1)"
    using assms by (simp add: query_selector_all_def seq_def browser_call_def gets_def anchors_of_def)
  have f: "filter_links (anchors_of ?p) [] ?s1 = (Inr (kept_links ?p), ?s2)"
    using filter_links_quiet [of ?s1 "anchors_of ?p" "[]"] assms anchors_on_page [of ?p]
    by (simp add: kept_links_def cong: if_cong)
  show ?thesis
  proof (cases "anchors_of ?p = []")
    case True
    then have "kept_links ?p = []" by (simp add: kept_links_def)
    with True q show ?thesis by (simp add: click_random_link_def seq_def ret_def)
  next
    case False
    note nonempty = this
    show ?thesis
    proof (cases "kept_links ?p = []")
      case True
      with nonempty q f show ?thesis
        by (simp add: click_random_link_def seq_def log_message_run logged_frame)
    next
      case False
      then have "0 \<le> choice_bound (kept_links ?p)" by (simp add: choice_bound_def)
      from randint_quiet [OF this, of ?s2] obtain r where
        r: "0 \<le> r" "r \<le> choice_bound (kept_links ?p)"
          "randint 0 (choice_bound (kept_links ?p)) ?s2 = (Inr r, ?s2\<lparr>seeds := tl (seeds ?s2)\<rparr>)"
        by blast
      let ?s3 = "?s2\<lparr>seeds := tl (seeds ?s2)\<rparr>"
      from r(1,2) False have "r < int (length (kept_links ?p))"
        by (auto simp: choice_bound_def)
      with r(1) have ix: "py_index (kept_links ?p) r ?s3 = (Inr (kept_links ?p ! nat r), ?s3)"
        by (simp add: py_index_def ret_def)
      obtain link h where lh: "kept_links ?p ! nat r = (link, h)" by (cases "kept_links ?p ! nat r")
      have s3: "faults ?s3 = []" using assms by simp
      from click_link_quiet [OF s3, of cfg link h]
      have c: "fst (click_link cfg link h ?s3) = Inr ()"
        "calls (snd (click_link cfg link h ?s3)) = calls ?s3 @ link_calls (link, h)" by simp_all
      have run: "click_random_link cfg s = click_link cfg link h ?s3"
        using nonempty False q f r(3) ix lh by (simp add: click_random_link_def seq_def)
      from c r(1,2) lh False show ?thesis
        unfolding run by auto
    qed
  qed
qed

text \<open>
  C2, as the code has it. In every tick exactly one branch is taken, by strict priority
  over the thresholds: the modification of the cookies, else the return to the start
  URL, else the refresh, else the click on a link. The first three branches never raise
  and set their own timestamp to the current time; the return issues exactly one
  \<^verbatim>\<open>goto\<close> of the start URL, the refresh exactly one \<^verbatim>\<open>reload\<close>, the modification starts with
  the read of the cookies. The click branch leaves the timestamps as they are; when no
  call raises it reads the \<^verbatim>\<open>href\<close> of every anchor and then clicks one link, picked among the
  first ten that pass the filter, unless no link passes the filter or the \<^verbatim>\<open>href\<close> picked
  starts with \<^verbatim>\<open>#\<close> or \<^verbatim>\<open>javascript:\<close>: then it clicks nothing.
\<close>

theorem perform_action_one_branch:
  "(choose_action cfg t sc = ModifyCookies \<longleftrightarrow>
      t - last_cookie_mod_time sc \<ge> real_of_int (cookie_mod_interval cfg)) \<and>
   (choose_action cfg t sc = ReturnToStart \<longleftrightarrow>
      \<not> t - last_cookie_mod_time sc \<ge> real_of_int (cookie_mod_interval cfg) \<and>
      t - last_return_time sc \<ge> real_of_int (return_interval cfg)) \<and>
   (choose_action cfg t sc = Refresh \<longleftrightarrow>
      \<not> t - last_cookie_mod_time sc \<ge> real_of_int (cookie_mod_interval cfg) \<and>
      \<not> t - last_return_time sc \<ge> real_of_int (return_interval cfg) \<and>
      t - last_refresh_time sc \<ge> real_of_int (refresh_interval cfg)) \<and>
   (choose_action cfg t sc = ClickLink \<longleftrightarrow>
      \<not> t - last_cookie_mod_time sc \<ge> real_of_int (cookie_mod_interval cfg) \<and>
      \<not> t - last_return_time sc \<ge> real_of_int (return_interval cfg) \<and>
      \<not> t - last_refresh_time sc \<ge> real_of_int (refresh_interval cfg)) \<and>
   (choose_action cfg t sc = ModifyCookies \<longrightarrow>
      fst (perform_action cfg t sc s) = Inr (sc\<lparr>last_cookie_mod_time := t\<rparr>) \<and>
      (\<exists>rest. calls (snd (perform_action cfg t sc s)) = calls s @ ContextCookies # rest)) \<and>
   (choose_action cfg t sc = ReturnToStart \<longrightarrow>
      fst (perform_action cfg t sc s) = Inr (sc\<lparr>last_return_time := t\<rparr>) \<and>
      calls (snd (perform_action cfg t sc s)) = calls s @ [Goto (start_url cfg)]) \<and>
   (choose_action cfg t sc = Refresh \<longrightarrow>
      fst (perform_action cfg t sc s) = Inr (sc\<lparr>last_refresh_time := t\<rparr>) \<and>
      calls (snd (perform_action cfg t sc s)) = calls s @ [Reload None]) \<and>
   (choose_action cfg t sc = ClickLink \<and> faults s = [] \<longrightarrow>
      fst (perform_action cfg t sc s) = Inr sc \<and>
      (\<exists>clicks. calls (snd (perform_action cfg t sc s))
          = calls s @ QuerySelectorAll ''a''
              # map (\<lambda>l. GetAttribute l ''href'') (anchors_of (current s)) @ clicks \<and>
         (if kept_links (current s) = [] then clicks = []
          else \<exists>r. 0 \<le> r \<and> r \<le> choice_bound (kept_links (current s)) \<and>
                 clicks = link_calls (kept_links (current s) ! nat r))))"
proof -
  have click: "fst (perform_action cfg t sc s) = Inr sc \<and>
      (\<exists>clicks. calls (snd (perform_action cfg t sc s))
          = calls s @ QuerySelectorAll ''a''
              # map (\<lambda>l. GetAttribute l ''href'') (anchors_of (current s)) @ clicks \<and>
         (if kept_links (current s) = [] then clicks = []
          else \<exists>r. 0 \<le> r \<and> r \<le> choice_bound (kept_links (current s)) \<and>
                 clicks = link_calls (kept_links (current s) ! nat r)))"
    if c: "choose_action cfg t sc = ClickLink" and q: "faults s = []"
  proof -
    obtain r1 s1 where run: "click_random_link cfg s = (r1, s1)"
      by (cases "click_random_link cfg s")
    with click_random_link_quiet [OF q, of cfg] have r1: "r1 = Inr ()" by simp
    from c run r1 have "perform_action cfg t sc s = (Inr sc, s1)"
      by (simp add: perform_action_def seq_def ret_def)
    with click_random_link_quiet [OF q, of cfg] run show ?thesis by simp
  qed
  from choose_action_cases [of cfg t sc] perform_modify [of cfg t sc s]
    perform_return [of cfg t sc s] perform_refresh [of cfg t sc s] click
  show ?thesis by blast
qed

text \<open>One tick for each branch, with the intervals 120, 300 and 60 seconds.\<close>

theorem perform_action_one_branch_witness:
  "choose_action sample_config 130 (sched_at 0 0 0) = ModifyCookies \<and>
   fst (perform_action sample_config 130 (sched_at 0 0 0) world0) = Inr (sched_at 0 0 130) \<and>
   choose_action sample_config 310 (sched_at 0 0 300) = ReturnToStart \<and>
   fst (perform_action sample_config 310 (sched_at 0 0 300) world0) = Inr (sched_at 0 310 300) \<and>
   calls (snd (perform_action sample_config 310 (sched_at 0 0 300) world0))
     = [Goto ''https://example.com/''] \<and>
   choose_action sample_config 370 (sched_at 0 300 300) = Refresh \<and>
   fst (perform_action sample_config 370 (sched_at 0 300 300) world0) = Inr (sched_at 370 300 300) \<and>
   calls (snd (perform_action sample_config 370 (sched_at 0 300 300) world0)) = [Reload None] \<and>
   choose_action sample_config 380 (sched_at 370 300 300) = ClickLink \<and>
   faults (world0\<lparr>current := docs_page\<rparr>) = [] \<and>
   fst (perform_action sample_config 380 (sched_at 370 300 300) (world0\<lparr>current := docs_page\<rparr>))
     = Inr (sched_at 370 300 300) \<and>
   calls (snd (perform_action sample_config 380 (sched_at 370 300 300) (world0\<lparr>current := docs_page\<rparr>)))
     = [QuerySelectorAll ''a'', GetAttribute (Handle ''a'' 0) ''href'',
        GetAttribute (Handle ''a'' 1) ''href'', GetAttribute (Handle ''a'' 2) ''href'',
        GetAttribute (Handle ''a'' 3) ''href'', Click (Handle ''a'' 2),
        WaitForLoadState ''networkidle'' None]"
proof -
  have a: "choose_action sample_config 130 (sched_at 0 0 0) = ModifyCookies"
    "choose_action sample_config 310 (sched_at 0 0 300) = ReturnToStart"
    "choose_action sample_config 370 (sched_at 0 300 300) = Refresh"
    "choose_action sample_config 380 (sched_at 370 300 300) = ClickLink"
    by (simp_all add: choose_action_def sample_config_def sched_at_def)
  have w: "calls world0 = []" "faults (world0\<lparr>current := docs_page\<rparr>) = []"
    by (simp_all add: world0_def)
  have s: "start_url sample_config = ''https://example.com/''" by (simp add: sample_config_def)
  have u: "(sched_at 0 0 0)\<lparr>last_cookie_mod_time := 130\<rparr> = sched_at 0 0 130"
    "(sched_at 0 0 300)\<lparr>last_return_time := 310\<rparr> = sched_at 0 310 300"
    "(sched_at 0 300 300)\<lparr>last_refresh_time := 370\<rparr> = sched_at 370 300 300"
    by (simp_all add: sched_at_def)
  have c: "calls (snd (perform_action sample_config 380 (sched_at 370 300 300) (world0\<lparr>current := docs_page\<rparr>)))
     = [QuerySelectorAll ''a'', GetAttribute (Handle ''a'' 0) ''href'',
        GetAttribute (Handle ''a'' 1) ''href'', GetAttribute (Handle ''a'' 2) ''href'',
        GetAttribute (Handle ''a'' 3) ''href'', Click (Handle ''a'' 2),
        WaitForLoadState ''networkidle'' None]"
    by (simp add: perform_action_def choose_action_def sched_at_def click_random_link_def
        click_link_def choice_bound_def link_kept_def bad_link_words_def lower_def lower_char_def
        char_of_eq_iff eval_defs)
  from perform_action_one_branch [of sample_config 130 "sched_at 0 0 0" world0]
    perform_action_one_branch [of sample_config 310 "sched_at 0 0 300" world0]
    perform_action_one_branch [of sample_config 370 "sched_at 0 300 300" world0]
    perform_action_one_branch [of sample_config 380 "sched_at 370 300 300" "world0\<lparr>current := docs_page\<rparr>"]
  show ?thesis
    unfolding a w s u c by simp
qed

text \<open>
  C2 as stated fails: when no threshold is reached and the page has no anchor, the tick
  takes the click branch and does nothing but look for anchors.
\<close>

theorem perform_action_nothing_done:
  "choose_action sample_config 380 (sched_at 370 300 300) = ClickLink \<and>
   perform_action sample_config 380 (sched_at 370 300 300) world0
     = (Inr (sched_at 370 300 300), world0\<lparr>calls := [QuerySelectorAll ''a'']\<rparr>)"
  by (simp add: perform_action_def choose_action_def click_random_link_def sched_at_def eval_defs)


section \<open>Two defects\<close>

text \<open>
  C1 does not hold of the code. The cookies to keep are selected by name, so a cookie
  without \<^verbatim>\<open>expires\<close> that shares its name with a cookie that has one is cleared and not
  added back: of the two sample cookies only the rewritten one is in the context again.
\<close>

theorem modify_auth_cookies_drops_namesake:
  "modify_auth_cookies (world0\<lparr>jar := [auth_cookie, session_cookie]\<rparr>)
     = (Inr (),
        world0\<lparr>jar := [auth_cookie\<lparr>expires := Some 0\<rparr>],
          calls := [ContextCookies, ClearCookies, AddCookies [auth_cookie\<lparr>expires := Some 0\<rparr>],
                    Reload (Some 30000)],
          log_file := [''[T] '' @ CHR 0x0A # ''==== MODIFYING AUTH COOKIES ===='',
                       ''[T] Reset 'xxpires' for cookie: sid'',
                       ''[T] Successfully modified 1 auth cookies'',
                       ''[T] Reloading page to apply cookie changes'']\<rparr>)"
  by (simp add: modify_auth_cookies_def eval_defs auth_cookie_def session_cookie_def digit_char_def)

text \<open>
  C3 does not hold of the code. The reads \<^verbatim>\<open>context.cookies()\<close> and
  \<^verbatim>\<open>page.query_selector_all('a')\<close> of the loop body stand outside every \<^verbatim>\<open>try\<close>: an exception
  of either leaves the loop in its first pass, at time 0 of the 600 seconds.
\<close>

theorem loop_exception_escapes:
  "browse_loop 1 sample_config [] 0 (sched_at 0 0 0)
      (world0\<lparr>faults := [Some ''Target page, context or browser has been closed'']\<rparr>)
     = Some (Inl (PlaywrightError ''Target page, context or browser has been closed''),
             world0\<lparr>calls := [ContextCookies]\<rparr>) \<and>
   browse_loop 1 sample_config [] 0 (sched_at 0 0 0)
      (world0\<lparr>faults := [None, Some ''Execution context was destroyed'']\<rparr>)
     = Some (Inl (PlaywrightError ''Execution context was destroyed''),
             world0\<lparr>calls := [ContextCookies, QuerySelectorAll ''a''],
               log_file := [''[T] '' @ CHR 0x0A # ''==== CURRENT REQUEST ===='',
                            ''[T] Current URL: https://example.com/'', ''[T] Cookies count: 0''],
               console := [''[T] Current URL: https://example.com/'']\<rparr>)"
  by (simp add: loop_body_def check_and_handle_cognito_login_def perform_action_def
      choose_action_def click_random_link_def sched_at_def digit_char_def first_line_def eval_defs)


end
